theory Spec2Isabelle
  imports Main "HOL-Library.Word" "HOL-Library.AList"
begin

section \<open>The invoice payment poller of cmswww\<close>

text \<open>
  The poller (package main, the file that declares \<^verbatim>\<open>polledPayment\<close>) keeps an
  in-memory pool of payment addresses, asks a block explorer whether each address has been
  paid, and marks the invoice as paid in the database. The database, the block explorer,
  the clock and \<^verbatim>\<open>time.Sleep\<close> are collaborators of the poller: they are the
  fields of an environment, and every call the poller makes to the database, to the
  explorer and to \<^verbatim>\<open>time.Sleep\<close> is written to a log, in order, with its result.
\<close>

subsection \<open>Data\<close>

type_synonym uint64 = "64 word"

text \<open>A Go \<^verbatim>\<open>int64\<close> is a 64-bit word that is read with \<^term>\<open>sint\<close>.\<close>

type_synonym int64 = "64 word"

text \<open>
  Modelled from the spec: the declaration of \<^verbatim>\<open>v1.InvoiceStatusT\<close> is not among the
  sources. The constructors are the status names that the sources use
  (\<^verbatim>\<open>InvoiceStatusNotReviewed\<close>, \<^verbatim>\<open>InvoiceStatusRejected\<close>,
  \<^verbatim>\<open>InvoiceStatusApproved\<close>, \<^verbatim>\<open>InvoiceStatusPaid\<close>).
\<close>

datatype InvoiceStatusT =
    InvoiceStatusNotReviewed
  | InvoiceStatusRejected
  | InvoiceStatusApproved
  | InvoiceStatusPaid

text \<open>
  Modelled from the spec: the declarations of \<^verbatim>\<open>database.InvoicePayment\<close> and
  \<^verbatim>\<open>database.Invoice\<close> are not among the sources. The records have the fields that
  the poller reads and writes.
\<close>

record InvoicePayment =
  Address :: string
  Amount :: uint64
  TxNotBefore :: int64
  PollExpiry :: int64

record Invoice =
  Token :: string
  Status :: InvoiceStatusT
  Payments :: "InvoicePayment list"

record polledPayment =
  address :: string
  amount :: uint64
  txNotBefore :: int64
  pollExpiry :: int64

text \<open>
  Modelled from the spec: the error values of package \<^verbatim>\<open>database\<close> are declared in a
  file that is not among the sources. \<^verbatim>\<open>ErrShutdown\<close> is the distinguished error of a
  store that has been closed; the others are the errors that \<^verbatim>\<open>cockroachdb.go\<close>
  returns by name, and any other error of the backend, with its message.
\<close>

datatype error =
    ErrShutdown
  | ErrUserNotFound
  | ErrInvalidEmail
  | ErrInvoiceNotFound
  | ErrBackend string

subsection \<open>Time\<close>

text \<open>
  Package \<^verbatim>\<open>time\<close> of the Go library. A \<^verbatim>\<open>time.Time\<close> is an instant with
  nanosecond resolution; the record gives it as the whole seconds since the Unix epoch and
  the nanoseconds within that second. \<^verbatim>\<open>t.After(u)\<close> compares the seconds, and the
  nanoseconds when the seconds are equal.
\<close>

record Time =
  sec :: int
  nsec :: int

definition After :: "Time \<Rightarrow> Time \<Rightarrow> bool" where
  "After t u = (sec u < sec t \<or> (sec t = sec u \<and> nsec u < nsec t))"

text \<open>
  Go keeps the seconds of a \<^verbatim>\<open>Time\<close> in an \<^verbatim>\<open>int64\<close> that counts from the year
  1: \<^verbatim>\<open>unixTime(sec, nsec)\<close> stores \<^verbatim>\<open>sec + unixToInternal\<close>, and the addition is
  an addition of \<^verbatim>\<open>int64\<close>, which wraps around. The instant that the stored value
  stands for is therefore \<open>2 ^ 64\<close> seconds earlier than \<open>sec\<close> when the sum does not
  fit.
\<close>

definition unixToInternal :: int64 where
  "unixToInternal = 62135596800"

definition unixTime :: "int64 \<Rightarrow> int \<Rightarrow> Time" where
  "unixTime s n = \<lparr>sec = sint (s + unixToInternal) - sint unixToInternal, nsec = n\<rparr>"

text \<open>
  \<^verbatim>\<open>time.Unix(sec, nsec)\<close> first brings \<^verbatim>\<open>nsec\<close> into the range of a second,
  with the division of Go, which truncates, and carries the rest into \<^verbatim>\<open>sec\<close>.
\<close>

definition Unix :: "int64 \<Rightarrow> int64 \<Rightarrow> Time" where
  "Unix s nsec0 =
     (if sint nsec0 < 0 \<or> 1000000000 \<le> sint nsec0 then
        let n = sgn (sint nsec0) * (\<bar>sint nsec0\<bar> div 1000000000);
            s1 = s + word_of_int n;
            nsec1 = sint nsec0 - n * 1000000000
        in if nsec1 < 0 then unixTime (s1 - 1) (nsec1 + 1000000000)
           else unixTime s1 nsec1
      else unixTime s (sint nsec0))"

text \<open>\<^verbatim>\<open>pollCheckGap = time.Second * 5\<close>, a \<^verbatim>\<open>time.Duration\<close> in nanoseconds.\<close>

definition pollCheckGap :: int where
  "pollCheckGap = 1000000000 * 5"

text \<open>
  \<^verbatim>\<open>pollHasExpired\<close> reads the clock; the reading \<open>now\<close> is the result of
  \<^verbatim>\<open>time.Now()\<close>.
\<close>

definition pollHasExpired :: "Time \<Rightarrow> int64 \<Rightarrow> bool" where
  "pollHasExpired now expiry = After now (Unix expiry 0)"

subsection \<open>The collaborators\<close>

text \<open>
  The world \<open>'w\<close> is everything outside the poller: the rows of the database, the block
  chain, the clock. A call takes the world and returns its result and the world after it.
  \<^verbatim>\<open>FetchTxWithBlockExplorers\<close> returns the transaction id, or an error message.
\<close>

record 'w env =
  GetInvoices :: "'w \<Rightarrow> (error + Invoice list) \<times> 'w"
  GetInvoiceByToken :: "'w \<Rightarrow> string \<Rightarrow> (error + Invoice) \<times> 'w"
  UpdateInvoice :: "'w \<Rightarrow> Invoice \<Rightarrow> error option \<times> 'w"
  FetchTxWithBlockExplorers ::
    "'w \<Rightarrow> string \<Rightarrow> uint64 \<Rightarrow> int64 \<Rightarrow> uint64 \<Rightarrow> (string + string) \<times> 'w"
  Now :: "'w \<Rightarrow> Time \<times> 'w"
  Sleep :: "'w \<Rightarrow> int \<Rightarrow> 'w"
  MinConfirmationsRequired :: uint64

datatype call =
    CallGetInvoices "error + Invoice list"
  | CallGetInvoiceByToken string "error + Invoice"
  | CallUpdateInvoice Invoice "error option"
  | CallFetchTx string uint64 int64 uint64 "string + string"
  | CallSleep int

record 'w state =
  world :: 'w
  calls :: "call list"

definition dbGetInvoices :: "'w env \<Rightarrow> 'w state \<Rightarrow> (error + Invoice list) \<times> 'w state" where
  "dbGetInvoices e s =
     (case GetInvoices e (world s) of
        (r, w) \<Rightarrow> (r, \<lparr>world = w, calls = calls s @ [CallGetInvoices r]\<rparr>))"

definition dbGetInvoiceByToken ::
  "'w env \<Rightarrow> string \<Rightarrow> 'w state \<Rightarrow> (error + Invoice) \<times> 'w state" where
  "dbGetInvoiceByToken e token s =
     (case GetInvoiceByToken e (world s) token of
        (r, w) \<Rightarrow> (r, \<lparr>world = w, calls = calls s @ [CallGetInvoiceByToken token r]\<rparr>))"

definition dbUpdateInvoice :: "'w env \<Rightarrow> Invoice \<Rightarrow> 'w state \<Rightarrow> error option \<times> 'w state" where
  "dbUpdateInvoice e invoice s =
     (case UpdateInvoice e (world s) invoice of
        (r, w) \<Rightarrow> (r, \<lparr>world = w, calls = calls s @ [CallUpdateInvoice invoice r]\<rparr>))"

definition fetchTx ::
  "'w env \<Rightarrow> string \<Rightarrow> uint64 \<Rightarrow> int64 \<Rightarrow> uint64 \<Rightarrow> 'w state \<Rightarrow> (string + string) \<times> 'w state" where
  "fetchTx e a n t m s =
     (case FetchTxWithBlockExplorers e (world s) a n t m of
        (r, w) \<Rightarrow> (r, \<lparr>world = w, calls = calls s @ [CallFetchTx a n t m r]\<rparr>))"

definition timeNow :: "'w env \<Rightarrow> 'w state \<Rightarrow> Time \<times> 'w state" where
  "timeNow e s = (case Now e (world s) of (t, w) \<Rightarrow> (t, \<lparr>world = w, calls = calls s\<rparr>))"

definition timeSleep :: "'w env \<Rightarrow> int \<Rightarrow> 'w state \<Rightarrow> 'w state" where
  "timeSleep e d s = \<lparr>world = Sleep e (world s) d, calls = calls s @ [CallSleep d]\<rparr>"

subsection \<open>The pool\<close>

text \<open>
  \<^verbatim>\<open>c.polledPayments\<close> is a Go map from token to \<^verbatim>\<open>polledPayment\<close>: an
  association list, whose order stands for the order in which a \<^verbatim>\<open>range\<close> visits the
  map (Go leaves it unspecified). Storing under a key replaces the binding of the key,
  \<^verbatim>\<open>delete\<close> removes it.
\<close>

type_synonym pool = "(string \<times> polledPayment) list"

definition addInvoiceForPolling :: "string \<Rightarrow> InvoicePayment \<Rightarrow> pool \<Rightarrow> pool" where
  "addInvoiceForPolling token invoicePayment polledPayments =
     AList.update token
       \<lparr>address = Address invoicePayment,
        amount = Amount invoicePayment,
        txNotBefore = TxNotBefore invoicePayment,
        pollExpiry = PollExpiry invoicePayment\<rparr>
       polledPayments"

text \<open>
  Locking apart, \<^verbatim>\<open>addInvoiceForPollingLock\<close> is \<^verbatim>\<open>addInvoiceForPolling\<close>.
\<close>

definition addInvoiceForPollingLock :: "string \<Rightarrow> InvoicePayment \<Rightarrow> pool \<Rightarrow> pool" where
  "addInvoiceForPollingLock token invoicePayment polledPayments =
     addInvoiceForPolling token invoicePayment polledPayments"

definition createPolledPaymentsCopy :: "pool \<Rightarrow> pool" where
  "createPolledPaymentsCopy polledPayments =
     foldl (\<lambda>copy (k, v). AList.update k v copy) [] polledPayments"

definition removeInvoicesFromPolling :: "string list \<Rightarrow> pool \<Rightarrow> pool" where
  "removeInvoicesFromPolling tokensToRemove polledPayments =
     foldl (\<lambda>m token. AList.delete token m) polledPayments tokensToRemove"

subsection \<open>Seeding the pool at startup\<close>

text \<open>The inner loop of \<^verbatim>\<open>addInvoicesForPolling\<close>, over the payments of one invoice.\<close>

fun addPayments ::
  "'w env \<Rightarrow> string \<Rightarrow> InvoicePayment list \<Rightarrow> pool \<Rightarrow> 'w state \<Rightarrow> pool \<times> 'w state" where
  "addPayments e token [] polledPayments s = (polledPayments, s)"
| "addPayments e token (invoicePayment # rest) polledPayments s =
     (case timeNow e s of
        (now, s1) \<Rightarrow>
          if pollHasExpired now (PollExpiry invoicePayment)
          then addPayments e token rest polledPayments s1
          else addPayments e token rest
                 (addInvoiceForPolling token invoicePayment polledPayments) s1)"

text \<open>The outer loop, over the invoices.\<close>

fun addInvoices :: "'w env \<Rightarrow> Invoice list \<Rightarrow> pool \<Rightarrow> 'w state \<Rightarrow> pool \<times> 'w state" where
  "addInvoices e [] polledPayments s = (polledPayments, s)"
| "addInvoices e (invoice # rest) polledPayments s =
     (case addPayments e (Token invoice) (Payments invoice) polledPayments s of
        (polledPayments', s') \<Rightarrow> addInvoices e rest polledPayments' s')"

definition addInvoicesForPolling ::
  "'w env \<Rightarrow> pool \<Rightarrow> 'w state \<Rightarrow> error option \<times> pool \<times> 'w state" where
  "addInvoicesForPolling e polledPayments s =
     (case dbGetInvoices e s of
        (Inl err, s1) \<Rightarrow> (Some err, polledPayments, s1)
      | (Inr invoices, s1) \<Rightarrow>
          (case addInvoices e invoices polledPayments s1 of
             (polledPayments', s2) \<Rightarrow> (None, polledPayments', s2)))"

subsection \<open>Reconciliation\<close>

text \<open>
  One iteration of the loop of \<^verbatim>\<open>checkForInvoicePayments\<close> either returns from the
  function (\<^verbatim>\<open>return false, nil\<close>) or goes on to the next entry, by \<^verbatim>\<open>continue\<close>
  or by reaching the end of the body, with the list \<^verbatim>\<open>tokensToRemove\<close> as it then is.
\<close>

datatype 'w step =
    Return "'w state"
  | Next "string list" "'w state"

definition checkEntry ::
  "'w env \<Rightarrow> string \<Rightarrow> polledPayment \<Rightarrow> string list \<Rightarrow> 'w state \<Rightarrow> 'w step" where
  "checkEntry e token pp tokensToRemove s =
     (case dbGetInvoiceByToken e token s of
        (Inl err, s1) \<Rightarrow>
          if err = ErrShutdown then Return s1 else Next tokensToRemove s1
      | (Inr invoice, s1) \<Rightarrow>
          if Status invoice = InvoiceStatusPaid then Next (tokensToRemove @ [token]) s1
          else
            (case timeNow e s1 of
               (now, s2) \<Rightarrow>
                 if pollHasExpired now (pollExpiry pp)
                 then Next (tokensToRemove @ [Token invoice]) s2
                 else
                   (case fetchTx e (address pp) (amount pp) (txNotBefore pp)
                           (MinConfirmationsRequired e) s2 of
                      (Inl err, s3) \<Rightarrow> Next tokensToRemove s3
                    | (Inr tx, s3) \<Rightarrow>
                        if tx \<noteq> []
                        then
                          (case dbUpdateInvoice e (invoice\<lparr>Status := InvoiceStatusPaid\<rparr>) s3 of
                             (Some err, s4) \<Rightarrow>
                               if err = ErrShutdown then Return s4
                               else Next tokensToRemove s4
                           | (None, s4) \<Rightarrow>
                               Next (tokensToRemove @ [token]) (timeSleep e pollCheckGap s4))
                        else Next tokensToRemove (timeSleep e pollCheckGap s3))))"

text \<open>
  The loop over the snapshot. The list is the snapshot in the order in which the
  \<^verbatim>\<open>range\<close> visits it.
\<close>

fun checkEntries ::
  "'w env \<Rightarrow> (string \<times> polledPayment) list \<Rightarrow> string list \<Rightarrow> 'w state \<Rightarrow> 'w step" where
  "checkEntries e [] tokensToRemove s = Next tokensToRemove s"
| "checkEntries e ((token, pp) # rest) tokensToRemove s =
     (case checkEntry e token pp tokensToRemove s of
        Return s' \<Rightarrow> Return s'
      | Next tokensToRemove' s' \<Rightarrow> checkEntries e rest tokensToRemove' s')"

definition checkForInvoicePayments ::
  "'w env \<Rightarrow> (string \<times> polledPayment) list \<Rightarrow> 'w state \<Rightarrow> (bool \<times> string list) \<times> 'w state" where
  "checkForInvoicePayments e polledPayments s =
     (case checkEntries e polledPayments [] s of
        Return s' \<Rightarrow> ((False, []), s')
      | Next tokensToRemove s' \<Rightarrow> ((True, tokensToRemove), s'))"

subsection \<open>The driver\<close>

text \<open>
  \<^verbatim>\<open>checkForPayments\<close> is a loop without an exit condition. The model runs at most
  \<open>n\<close> cycles of it: \<open>Stopped\<close> is the \<^verbatim>\<open>return\<close> of the function, \<open>Running\<close> says
  that the loop is still going after \<open>n\<close> cycles. Both carry the pool and the state.
  The pool is the pool as the driver leaves it: the insertions that request handlers make
  while the driver runs are not part of the model.
\<close>

datatype 'w run =
    Stopped pool "'w state"
  | Running pool "'w state"

fun checkForPayments :: "nat \<Rightarrow> 'w env \<Rightarrow> pool \<Rightarrow> 'w state \<Rightarrow> 'w run" where
  "checkForPayments 0 e polledPayments s = Running polledPayments s"
| "checkForPayments (Suc n) e polledPayments s =
     (let invoicePaymentsToCheck = createPolledPaymentsCopy polledPayments in
      case checkForInvoicePayments e invoicePaymentsToCheck s of
        ((shouldContinue, invoiceTokensToRemove), s1) \<Rightarrow>
          if \<not> shouldContinue then Stopped polledPayments s1
          else checkForPayments n e
                 (removeInvoicesFromPolling invoiceTokensToRemove polledPayments)
                 (timeSleep e pollCheckGap s1))"

subsection \<open>Reading the log\<close>

text \<open>
  A call to the store made by reconciliation (\<^verbatim>\<open>GetInvoiceByToken\<close> or
  \<^verbatim>\<open>UpdateInvoice\<close>) that returned \<^verbatim>\<open>database.ErrShutdown\<close>.
\<close>

definition storeShutdown :: "call \<Rightarrow> bool" where
  "storeShutdown c =
     (case c of
        CallGetInvoiceByToken token r \<Rightarrow> r = Inl ErrShutdown
      | CallUpdateInvoice invoice r \<Rightarrow> r = Some ErrShutdown
      | _ \<Rightarrow> False)"

definition isSleep :: "call \<Rightarrow> bool" where
  "isSleep c = (case c of CallSleep d \<Rightarrow> True | _ \<Rightarrow> False)"

definition isFetchTx :: "call \<Rightarrow> bool" where
  "isFetchTx c = (case c of CallFetchTx a n t m r \<Rightarrow> True | _ \<Rightarrow> False)"

definition isUpdateInvoice :: "call \<Rightarrow> bool" where
  "isUpdateInvoice c = (case c of CallUpdateInvoice invoice r \<Rightarrow> True | _ \<Rightarrow> False)"

text \<open>The calls made between the state \<open>s\<close> and the later state \<open>s'\<close>.\<close>

definition newCalls :: "'w state \<Rightarrow> 'w state \<Rightarrow> call list" where
  "newCalls s s' = drop (length (calls s)) (calls s')"

definition stepState :: "'w step \<Rightarrow> 'w state" where
  "stepState r = (case r of Return s \<Rightarrow> s | Next tokensToRemove s \<Rightarrow> s)"

definition runState :: "'w run \<Rightarrow> 'w state" where
  "runState r = (case r of Stopped polledPayments s \<Rightarrow> s | Running polledPayments s \<Rightarrow> s)"

definition runPool :: "'w run \<Rightarrow> pool" where
  "runPool r = (case r of Stopped polledPayments s \<Rightarrow> polledPayments | Running polledPayments s \<Rightarrow> polledPayments)"

definition isStopped :: "'w run \<Rightarrow> bool" where
  "isStopped r = (case r of Stopped polledPayments s \<Rightarrow> True | Running polledPayments s \<Rightarrow> False)"

subsection \<open>The store of cockroachdb.go\<close>

text \<open>
  \<^verbatim>\<open>cockroachdb\<close> wraps a gorm handle and a flag that \<^verbatim>\<open>Close\<close> sets. Each method
  returns \<^verbatim>\<open>database.ErrShutdown\<close> when the flag is set, before it touches the
  handle. The gorm query itself, with the decoding of its rows, is not among the sources:
  it is the parameter \<open>scan\<close>, \<open>save\<close> or \<open>rows\<close> of the method, a function on the
  handle \<open>'g\<close>.
\<close>

record 'g cockroachdb =
  shutdown :: bool
  db :: 'g

definition cockroachdb_UpdateInvoice ::
  "('g \<Rightarrow> Invoice \<Rightarrow> error option \<times> 'g) \<Rightarrow> 'g cockroachdb \<Rightarrow> Invoice
     \<Rightarrow> error option \<times> 'g cockroachdb" where
  "cockroachdb_UpdateInvoice save c dbInvoice =
     (if shutdown c then (Some ErrShutdown, c)
      else case save (db c) dbInvoice of (r, g) \<Rightarrow> (r, c\<lparr>db := g\<rparr>))"

definition cockroachdb_GetInvoiceByToken ::
  "('g \<Rightarrow> string \<Rightarrow> (error + Invoice) \<times> 'g) \<Rightarrow> 'g cockroachdb \<Rightarrow> string
     \<Rightarrow> (error + Invoice) \<times> 'g cockroachdb" where
  "cockroachdb_GetInvoiceByToken scan c token =
     (if shutdown c then (Inl ErrShutdown, c)
      else case scan (db c) token of (r, g) \<Rightarrow> (r, c\<lparr>db := g\<rparr>))"

definition cockroachdb_GetInvoices ::
  "('g \<Rightarrow> (error + Invoice list) \<times> 'g) \<Rightarrow> 'g cockroachdb
     \<Rightarrow> (error + Invoice list) \<times> 'g cockroachdb" where
  "cockroachdb_GetInvoices rows c =
     (if shutdown c then (Inl ErrShutdown, c)
      else case rows (db c) of (r, g) \<Rightarrow> (r, c\<lparr>db := g\<rparr>))"

definition cockroachdb_Close :: "'g cockroachdb \<Rightarrow> 'g cockroachdb" where
  "cockroachdb_Close c = c\<lparr>shutdown := True\<rparr>"

subsection \<open>An environment to run the poller in\<close>

text \<open>
  A small world for running the poller on concrete inputs: the invoice table is a list of
  invoices behind a \<open>cockroachdb\<close>, a query by token finds the first row with that token
  (no row: \<^verbatim>\<open>ErrInvoiceNotFound\<close>), saving an invoice replaces the rows with its token.
  The block explorer answers from a table of addresses, and an address that is not in the
  table has no transaction yet. \<open>closeAfter\<close> is the number of store calls that go
  through before another goroutine closes the store (\<open>None\<close>: it never does). Sleeping
  advances the clock.
\<close>

record memWorld =
  store :: "Invoice list cockroachdb"
  closeAfter :: "nat option"
  clock :: Time
  explorer :: "(string \<times> (string + string)) list"

definition memScan :: "Invoice list \<Rightarrow> string \<Rightarrow> (error + Invoice) \<times> Invoice list" where
  "memScan table token =
     (case find (\<lambda>i. Token i = token) table of
        None \<Rightarrow> (Inl ErrInvoiceNotFound, table)
      | Some i \<Rightarrow> (Inr i, table))"

definition memSave :: "Invoice list \<Rightarrow> Invoice \<Rightarrow> error option \<times> Invoice list" where
  "memSave table invoice =
     (None, map (\<lambda>i. if Token i = Token invoice then invoice else i) table)"

definition memRows :: "Invoice list \<Rightarrow> (error + Invoice list) \<times> Invoice list" where
  "memRows table = (Inr table, table)"

definition memOthers :: "memWorld \<Rightarrow> memWorld" where
  "memOthers w =
     (case closeAfter w of
        None \<Rightarrow> w
      | Some 0 \<Rightarrow> w\<lparr>store := cockroachdb_Close (store w)\<rparr>
      | Some (Suc k) \<Rightarrow> w\<lparr>closeAfter := Some k\<rparr>)"

definition memEnv :: "memWorld env" where
  "memEnv =
     \<lparr>GetInvoices = (\<lambda>w.
        case cockroachdb_GetInvoices memRows (store (memOthers w)) of
          (r, c) \<Rightarrow> (r, (memOthers w)\<lparr>store := c\<rparr>)),
      GetInvoiceByToken = (\<lambda>w token.
        case cockroachdb_GetInvoiceByToken memScan (store (memOthers w)) token of
          (r, c) \<Rightarrow> (r, (memOthers w)\<lparr>store := c\<rparr>)),
      UpdateInvoice = (\<lambda>w invoice.
        case cockroachdb_UpdateInvoice memSave (store (memOthers w)) invoice of
          (r, c) \<Rightarrow> (r, (memOthers w)\<lparr>store := c\<rparr>)),
      FetchTxWithBlockExplorers = (\<lambda>w a n t m.
        case map_of (explorer w) a of None \<Rightarrow> (Inr [], w) | Some r \<Rightarrow> (r, w)),
      Now = (\<lambda>w. (clock w, w)),
      Sleep = (\<lambda>w d.
        w\<lparr>clock := \<lparr>sec = sec (clock w) + (nsec (clock w) + d) div 1000000000,
                      nsec = (nsec (clock w) + d) mod 1000000000\<rparr>\<rparr>),
      MinConfirmationsRequired = 2\<rparr>"

text \<open>
  The entry of the spec's scenarios, the invoice it belongs to, and a world at second 1000
  where the invoice is not yet reviewed and the explorer knows no transaction.
\<close>

definition entryAbc :: polledPayment where
  "entryAbc = \<lparr>address = ''A1'', amount = 500, txNotBefore = 1000, pollExpiry = 9999999999\<rparr>"

definition invoiceAbc :: Invoice where
  "invoiceAbc = \<lparr>Token = ''abc'', Status = InvoiceStatusNotReviewed, Payments = []\<rparr>"

definition memWorld0 :: memWorld where
  "memWorld0 =
     \<lparr>store = \<lparr>shutdown = False, db = [invoiceAbc]\<rparr>,
      closeAfter = None,
      clock = \<lparr>sec = 1000, nsec = 0\<rparr>,
      explorer = []\<rparr>"

definition start :: "'w \<Rightarrow> 'w state" where
  "start w = \<lparr>world = w, calls = []\<rparr>"

text \<open>The same world once the explorer has seen the transaction \<^verbatim>\<open>txid123\<close>.\<close>

definition memWorldTx :: memWorld where
  "memWorldTx = memWorld0\<lparr>explorer := [(''A1'', Inr ''txid123'')]\<rparr>"

text \<open>A world where the invoice has been marked as paid by some other path.\<close>

definition memWorldPaid :: memWorld where
  "memWorldPaid =
     memWorld0\<lparr>store := \<lparr>shutdown = False,
                            db = [invoiceAbc\<lparr>Status := InvoiceStatusPaid\<rparr>]\<rparr>\<rparr>"


text \<open>
  A second entry, whose invoice is not in the table, and a pool of the two entries.
\<close>

definition entryXyz :: polledPayment where
  "entryXyz = \<lparr>address = ''A2'', amount = 700, txNotBefore = 1000, pollExpiry = 9999999999\<rparr>"

definition poolTwo :: pool where
  "poolTwo = [(''abc'', entryAbc), (''xyz'', entryXyz)]"

text \<open>
  An entry whose poll expired at second 999, a payment row that expired then and one that
  is still polled, an invoice with the two payments, and a world whose table has it.
\<close>

definition entryOld :: polledPayment where
  "entryOld = \<lparr>address = ''A0'', amount = 300, txNotBefore = 10, pollExpiry = 999\<rparr>"

definition paymentOld :: InvoicePayment where
  "paymentOld = \<lparr>Address = ''A0'', Amount = 300, TxNotBefore = 10, PollExpiry = 999\<rparr>"

definition paymentLive :: InvoicePayment where
  "paymentLive =
     \<lparr>Address = ''A1'', Amount = 500, TxNotBefore = 1000, PollExpiry = 9999999999\<rparr>"

definition invoiceSeed :: Invoice where
  "invoiceSeed =
     \<lparr>Token = ''abc'', Status = InvoiceStatusNotReviewed,
      Payments = [paymentOld, paymentLive]\<rparr>"

definition memWorldSeed :: memWorld where
  "memWorldSeed = memWorld0\<lparr>store := \<lparr>shutdown = False, db = [invoiceSeed]\<rparr>\<rparr>"

text \<open>
  A payment row whose poll expiry is the largest \<^verbatim>\<open>int64\<close>, an invoice with that
  payment alone, a world whose table has it, an entry with the same expiry, and the world
  once the explorer has a transaction for the address of the entry.
\<close>

definition paymentFar :: InvoicePayment where
  "paymentFar =
     \<lparr>Address = ''A9'', Amount = 500, TxNotBefore = 1000, PollExpiry = 9223372036854775807\<rparr>"

definition invoiceFar :: Invoice where
  "invoiceFar =
     \<lparr>Token = ''far'', Status = InvoiceStatusNotReviewed, Payments = [paymentFar]\<rparr>"

definition memWorldFar :: memWorld where
  "memWorldFar = memWorld0\<lparr>store := \<lparr>shutdown = False, db = [invoiceFar]\<rparr>\<rparr>"

definition entryFar :: polledPayment where
  "entryFar =
     \<lparr>address = ''A9'', amount = 500, txNotBefore = 1000, pollExpiry = 9223372036854775807\<rparr>"

definition memWorldFarTx :: memWorld where
  "memWorldFarTx = memWorldFar\<lparr>explorer := [(''A9'', Inr ''txid999'')]\<rparr>"

subsection \<open>What seeding amounts to\<close>

text \<open>
  The rows that \<^verbatim>\<open>addInvoicesForPolling\<close> visits, in order: each payment of each
  invoice, with the token of its invoice.
\<close>

definition invoiceRows :: "Invoice list \<Rightarrow> (string \<times> InvoicePayment) list" where
  "invoiceRows invoices =
     concat (map (\<lambda>invoice. map (Pair (Token invoice)) (Payments invoice)) invoices)"

text \<open>
  The first \<open>n\<close> readings of the clock from the world \<open>w\<close> on, and the world after
  them.
\<close>

fun clockReadings :: "'w env \<Rightarrow> nat \<Rightarrow> 'w \<Rightarrow> Time list" where
  "clockReadings e 0 w = []"
| "clockReadings e (Suc n) w = (case Now e w of (t, w') \<Rightarrow> t # clockReadings e n w')"

fun clockWorld :: "'w env \<Rightarrow> nat \<Rightarrow> 'w \<Rightarrow> 'w" where
  "clockWorld e 0 w = w"
| "clockWorld e (Suc n) w = (case Now e w of (t, w') \<Rightarrow> clockWorld e n w')"

text \<open>
  The seeding as the spec words it: of the rows, each with the time at which it is looked
  at, those whose expiry has not passed are inserted under their token, in order.
\<close>

definition unexpiredRows ::
  "((string \<times> InvoicePayment) \<times> Time) list \<Rightarrow> (string \<times> InvoicePayment) list" where
  "unexpiredRows timed =
     map fst (filter (\<lambda>(row, now). \<not> pollHasExpired now (PollExpiry (snd row))) timed)"

definition insertRows :: "(string \<times> InvoicePayment) list \<Rightarrow> pool \<Rightarrow> pool" where
  "insertRows rows polledPayments =
     foldl (\<lambda>p (token, invoicePayment). addInvoiceForPolling token invoicePayment p)
       polledPayments rows"

section \<open>The log of a pass\<close>

text \<open>
  The calls of a pass only grow the log. A pass that returns from the loop does so right
  after a store call that returned \<^verbatim>\<open>ErrShutdown\<close>, and no earlier call of the pass
  returned it; a pass that runs to the end has seen no such call.
\<close>

lemmas ext_defs = dbGetInvoiceByToken_def dbUpdateInvoice_def fetchTx_def timeNow_def timeSleep_def

lemmas mem_defs = memEnv_def memOthers_def memScan_def memSave_def memRows_def
  cockroachdb_GetInvoiceByToken_def cockroachdb_UpdateInvoice_def cockroachdb_GetInvoices_def
  cockroachdb_Close_def memWorld0_def memWorldTx_def memWorldPaid_def entryAbc_def
  invoiceAbc_def start_def entryXyz_def poolTwo_def entryOld_def paymentOld_def
  paymentLive_def invoiceSeed_def memWorldSeed_def paymentFar_def invoiceFar_def
  memWorldFar_def entryFar_def memWorldFarTx_def

lemmas time_defs = pollHasExpired_def After_def Unix_def unixTime_def unixToInternal_def
  pollCheckGap_def

lemmas run_defs = checkForInvoicePayments_def checkEntry_def ext_defs
  createPolledPaymentsCopy_def removeInvoicesFromPolling_def

lemma checkEntry_Return:
  "checkEntry e t pp toks s = Return s' \<Longrightarrow>
     \<exists>cs c. calls s' = calls s @ cs @ [c] \<and> storeShutdown c \<and> \<not> list_ex storeShutdown cs"
  unfolding checkEntry_def ext_defs
  by (auto simp: storeShutdown_def split: prod.splits sum.splits if_splits option.splits)

lemma checkEntry_Next:
  "checkEntry e t pp toks s = Next toks' s' \<Longrightarrow>
     \<exists>cs. calls s' = calls s @ cs \<and> \<not> list_ex storeShutdown cs"
  unfolding checkEntry_def ext_defs
  by (auto simp: storeShutdown_def split: prod.splits sum.splits if_splits option.splits)

lemma checkEntry_Next_toks:
  "checkEntry e t pp toks s = Next toks' s' \<Longrightarrow> \<exists>xs. toks' = toks @ xs"
  unfolding checkEntry_def ext_defs
  by (auto split: prod.splits sum.splits if_splits option.splits)

lemma checkEntries_append:
  "checkEntries e (xs @ ys) toks s =
     (case checkEntries e xs toks s of
        Return s' \<Rightarrow> Return s'
      | Next toks' s' \<Rightarrow> checkEntries e ys toks' s')"
  by (induction xs arbitrary: toks s) (auto split: step.splits)

lemma checkEntries_Next_toks:
  "checkEntries e xs toks s = Next toks' s' \<Longrightarrow> \<exists>ys. toks' = toks @ ys"
proof (induction xs arbitrary: toks s)
  case Nil
  then show ?case by simp
next
  case (Cons x xs)
  obtain t pp where x: "x = (t, pp)" by (cases x)
  from Cons.prems x obtain toks1 s1 where
    one: "checkEntry e t pp toks s = Next toks1 s1" and
    rest: "checkEntries e xs toks1 s1 = Next toks' s'"
    by (auto split: step.splits)
  from checkEntry_Next_toks [OF one] Cons.IH [OF rest] show ?case by auto
qed

lemma checkEntries_Next:
  "checkEntries e xs toks s = Next toks' s' \<Longrightarrow>
     \<exists>cs. calls s' = calls s @ cs \<and> \<not> list_ex storeShutdown cs"
proof (induction xs arbitrary: toks s)
  case Nil
  then show ?case by simp
next
  case (Cons x xs)
  obtain t pp where x: "x = (t, pp)" by (cases x)
  from Cons.prems x obtain toks1 s1 where
    one: "checkEntry e t pp toks s = Next toks1 s1" and
    rest: "checkEntries e xs toks1 s1 = Next toks' s'"
    by (auto split: step.splits)
  from checkEntry_Next [OF one] Cons.IH [OF rest] show ?case by auto
qed

lemma checkEntries_Return:
  "checkEntries e xs toks s = Return s' \<Longrightarrow>
     \<exists>cs c. calls s' = calls s @ cs @ [c] \<and> storeShutdown c \<and> \<not> list_ex storeShutdown cs"
proof (induction xs arbitrary: toks s)
  case Nil
  then show ?case by simp
next
  case (Cons x xs)
  obtain t pp where x: "x = (t, pp)" by (cases x)
  show ?case
  proof (cases "checkEntry e t pp toks s")
    case (Return s1)
    with Cons.prems x have "s' = s1" by simp
    with Return checkEntry_Return show ?thesis by blast
  next
    case (Next toks1 s1)
    with Cons.prems x have rest: "checkEntries e xs toks1 s1 = Return s'" by simp
    from checkEntry_Next [OF Next] obtain cs1 where
      c1: "calls s1 = calls s @ cs1" "\<not> list_ex storeShutdown cs1" by blast
    from Cons.IH [OF rest] obtain cs2 c where
      c2: "calls s' = calls s1 @ cs2 @ [c]" "storeShutdown c" "\<not> list_ex storeShutdown cs2"
      by blast
    from c1 c2 have "calls s' = calls s @ (cs1 @ cs2) @ [c] \<and> storeShutdown c
        \<and> \<not> list_ex storeShutdown (cs1 @ cs2)"
      by simp
    then show ?thesis by blast
  qed
qed

lemma newCalls_append: "calls s' = calls s @ cs \<Longrightarrow> newCalls s s' = cs"
  by (simp add: newCalls_def)

lemma pass_False_iff:
  "fst (fst (checkForInvoicePayments e ps s)) = False \<longleftrightarrow>
     list_ex storeShutdown (newCalls s (snd (checkForInvoicePayments e ps s)))"
proof (cases "checkEntries e ps [] s")
  case (Return s')
  from checkEntries_Return [OF Return] obtain cs c where
    "calls s' = calls s @ cs @ [c]" "storeShutdown c" by blast
  then have "list_ex storeShutdown (newCalls s s')"
    by (simp add: newCalls_def)
  with Return show ?thesis by (simp add: checkForInvoicePayments_def)
next
  case (Next toks s')
  from checkEntries_Next [OF Next] obtain cs where
    "calls s' = calls s @ cs" "\<not> list_ex storeShutdown cs" by blast
  then have "\<not> list_ex storeShutdown (newCalls s s')"
    by (simp add: newCalls_def)
  with Next show ?thesis by (simp add: checkForInvoicePayments_def)
qed

section \<open>Entries that are removed\<close>

text \<open>
  A token that an entry appends to \<^verbatim>\<open>tokensToRemove\<close> is in the list that the pass
  returns, when the pass returns \<^verbatim>\<open>true\<close>.
\<close>

lemma pass_keeps_token:
  assumes pre: "checkEntries e before [] s0 = Next toks s"
    and one: "checkEntry e token pp toks s = Next (toks @ [token]) s'"
    and pass: "checkForInvoicePayments e (before @ (token, pp) # after) s0 = ((True, R), sf)"
  shows "token \<in> set R"
proof -
  from pre one have "checkEntries e (before @ (token, pp) # after) [] s0
      = checkEntries e after (toks @ [token]) s'"
    by (simp add: checkEntries_append)
  with pass have "checkEntries e after (toks @ [token]) s' = Next R sf"
    by (auto simp: checkForInvoicePayments_def split: step.splits)
  from checkEntries_Next_toks [OF this] show ?thesis by auto
qed

text \<open>
  The explorer is asked for an entry only after the invoice has been fetched and found
  not paid, and \<^verbatim>\<open>pollHasExpired\<close> has been false for the entry.
\<close>

lemma explorer_asked_only_when_live:
  assumes "list_ex isFetchTx (newCalls s (stepState (checkEntry e token pp toks s)))"
  shows "\<exists>invoice w1.
      GetInvoiceByToken e (world s) token = (Inr invoice, w1) \<and>
      Status invoice \<noteq> InvoiceStatusPaid \<and>
      \<not> pollHasExpired (fst (Now e w1)) (pollExpiry pp)"
  using assms
  by (auto simp: checkEntry_def ext_defs newCalls_def stepState_def isFetchTx_def
      split: prod.splits sum.splits if_splits)

text \<open>
  Claim C1. Take any entry of the snapshot, reached with the list \<open>toks\<close> in the state
  \<open>s\<close>. If the fetch of its invoice succeeds with a status other than paid, the poll has
  not expired, the explorer returns a transaction id that is not empty, and the update of the
  invoice succeeds, then the iteration appends the entry's token to
  \<^verbatim>\<open>tokensToRemove\<close>, and the store has been called with the invoice's status set to
  \<^verbatim>\<open>InvoiceStatusPaid\<close> and has accepted it; the iteration makes the four calls
  listed and no other. Whenever the pass that contains the entry returns \<^verbatim>\<open>true\<close>,
  the list it returns contains the token.
\<close>

theorem settled_entry_removed_and_paid:
  assumes fetch: "GetInvoiceByToken e (world s) token = (Inr invoice, w1)"
    and unpaid: "Status invoice \<noteq> InvoiceStatusPaid"
    and clock: "Now e w1 = (now, w2)"
    and live: "\<not> pollHasExpired now (pollExpiry pp)"
    and answer: "FetchTxWithBlockExplorers e w2 (address pp) (amount pp) (txNotBefore pp)
                   (MinConfirmationsRequired e) = (Inr tx, w3)"
    and found: "tx \<noteq> []"
    and saved: "UpdateInvoice e w3 (invoice\<lparr>Status := InvoiceStatusPaid\<rparr>) = (None, w4)"
  shows "checkEntry e token pp toks s =
           Next (toks @ [token])
             \<lparr>world = Sleep e w4 pollCheckGap,
              calls = calls s @
                [CallGetInvoiceByToken token (Inr invoice),
                 CallFetchTx (address pp) (amount pp) (txNotBefore pp)
                   (MinConfirmationsRequired e) (Inr tx),
                 CallUpdateInvoice (invoice\<lparr>Status := InvoiceStatusPaid\<rparr>) None,
                 CallSleep pollCheckGap]\<rparr>
         \<and> (\<forall>before after s0 R sf.
               checkEntries e before [] s0 = Next toks s \<and>
               checkForInvoicePayments e (before @ (token, pp) # after) s0 = ((True, R), sf)
               \<longrightarrow> token \<in> set R)"
proof -
  have one: "checkEntry e token pp toks s =
           Next (toks @ [token])
             \<lparr>world = Sleep e w4 pollCheckGap,
              calls = calls s @
                [CallGetInvoiceByToken token (Inr invoice),
                 CallFetchTx (address pp) (amount pp) (txNotBefore pp)
                   (MinConfirmationsRequired e) (Inr tx),
                 CallUpdateInvoice (invoice\<lparr>Status := InvoiceStatusPaid\<rparr>) None,
                 CallSleep pollCheckGap]\<rparr>"
    using assms by (simp add: checkEntry_def ext_defs)
  with pass_keeps_token show ?thesis by blast
qed

text \<open>
  The scenario of the spec: the explorer returns \<^verbatim>\<open>txid123\<close> for the entry
  \<^verbatim>\<open>abc\<close> and the update succeeds. The entry is removed, the invoice in the table
  is paid.
\<close>

theorem settled_entry_removed_and_paid_witness:
  "checkEntry memEnv ''abc'' entryAbc [] (start memWorldTx) =
     Next [''abc'']
       \<lparr>world = memWorldTx
          \<lparr>store := \<lparr>shutdown = False, db = [invoiceAbc\<lparr>Status := InvoiceStatusPaid\<rparr>]\<rparr>,
           clock := \<lparr>sec = 1005, nsec = 0\<rparr>\<rparr>,
        calls =
          [CallGetInvoiceByToken ''abc'' (Inr invoiceAbc),
           CallFetchTx ''A1'' 500 1000 2 (Inr ''txid123''),
           CallUpdateInvoice (invoiceAbc\<lparr>Status := InvoiceStatusPaid\<rparr>) None,
           CallSleep 5000000000]\<rparr>
   \<and> fst (checkForInvoicePayments memEnv [(''abc'', entryAbc)] (start memWorldTx))
       = (True, [''abc''])"
proof -
  let ?paid = "memWorldTx\<lparr>store := \<lparr>shutdown = False,
                 db = [invoiceAbc\<lparr>Status := InvoiceStatusPaid\<rparr>]\<rparr>\<rparr>"
  have fetch: "GetInvoiceByToken memEnv (world (start memWorldTx)) ''abc''
      = (Inr invoiceAbc, memWorldTx)"
    by (simp add: mem_defs)
  have unpaid: "Status invoiceAbc \<noteq> InvoiceStatusPaid"
    by (simp add: mem_defs)
  have clock: "Now memEnv memWorldTx = (\<lparr>sec = 1000, nsec = 0\<rparr>, memWorldTx)"
    by (simp add: mem_defs)
  have live: "\<not> pollHasExpired \<lparr>sec = 1000, nsec = 0\<rparr> (pollExpiry entryAbc)"
    by (simp add: mem_defs time_defs)
  have answer: "FetchTxWithBlockExplorers memEnv memWorldTx (address entryAbc)
      (amount entryAbc) (txNotBefore entryAbc) (MinConfirmationsRequired memEnv)
      = (Inr ''txid123'', memWorldTx)"
    by (simp add: mem_defs)
  have found: "''txid123'' \<noteq> []" by simp
  have saved: "UpdateInvoice memEnv memWorldTx (invoiceAbc\<lparr>Status := InvoiceStatusPaid\<rparr>)
      = (None, ?paid)"
    by (simp add: mem_defs)
  have pass: "fst (checkForInvoicePayments memEnv [(''abc'', entryAbc)] (start memWorldTx))
      = (True, [''abc''])"
    by (simp add: checkForInvoicePayments_def checkEntry_def ext_defs mem_defs time_defs)
  have sleep: "Sleep memEnv ?paid 5000000000 = ?paid\<lparr>clock := \<lparr>sec = 1005, nsec = 0\<rparr>\<rparr>"
    by (simp add: mem_defs time_defs)
  have conf: "MinConfirmationsRequired memEnv = 2"
    by (simp add: mem_defs)
  from settled_entry_removed_and_paid [OF fetch unpaid clock live answer found saved, of "[]"]
  have "checkEntry memEnv ''abc'' entryAbc [] (start memWorldTx) =
     Next [''abc'']
       \<lparr>world = ?paid\<lparr>clock := \<lparr>sec = 1005, nsec = 0\<rparr>\<rparr>,
        calls =
          [CallGetInvoiceByToken ''abc'' (Inr invoiceAbc),
           CallFetchTx ''A1'' 500 1000 2 (Inr ''txid123''),
           CallUpdateInvoice (invoiceAbc\<lparr>Status := InvoiceStatusPaid\<rparr>) None,
           CallSleep 5000000000]\<rparr>"
    by (simp add: sleep conf entryAbc_def start_def pollCheckGap_def)
  with pass show ?thesis by simp
qed

text \<open>
  Claim C4. If the fetched invoice already has the status paid, the iteration appends the
  entry's token to \<^verbatim>\<open>tokensToRemove\<close>, and the fetch is the only call it makes: the
  explorer is not asked. Whenever the pass that contains the entry returns
  \<^verbatim>\<open>true\<close>, the list it returns contains the token.
\<close>

theorem paid_entry_removed_without_oracle:
  assumes fetch: "GetInvoiceByToken e (world s) token = (Inr invoice, w1)"
    and paid: "Status invoice = InvoiceStatusPaid"
  shows "checkEntry e token pp toks s =
           Next (toks @ [token])
             \<lparr>world = w1, calls = calls s @ [CallGetInvoiceByToken token (Inr invoice)]\<rparr>
         \<and> (\<forall>before after s0 R sf.
               checkEntries e before [] s0 = Next toks s \<and>
               checkForInvoicePayments e (before @ (token, pp) # after) s0 = ((True, R), sf)
               \<longrightarrow> token \<in> set R)"
proof -
  have one: "checkEntry e token pp toks s =
           Next (toks @ [token])
             \<lparr>world = w1, calls = calls s @ [CallGetInvoiceByToken token (Inr invoice)]\<rparr>"
    using assms by (simp add: checkEntry_def ext_defs)
  with pass_keeps_token show ?thesis by blast
qed

text \<open>The invoice \<^verbatim>\<open>abc\<close> is already paid in the table: one call, one removal.\<close>

theorem paid_entry_removed_without_oracle_witness:
  "checkEntry memEnv ''abc'' entryAbc [] (start memWorldPaid) =
     Next [''abc'']
       \<lparr>world = memWorldPaid,
        calls = [CallGetInvoiceByToken ''abc'' (Inr (invoiceAbc\<lparr>Status := InvoiceStatusPaid\<rparr>))]\<rparr>
   \<and> fst (checkForInvoicePayments memEnv [(''abc'', entryAbc)] (start memWorldPaid))
       = (True, [''abc''])"
proof -
  have fetch: "GetInvoiceByToken memEnv (world (start memWorldPaid)) ''abc''
      = (Inr (invoiceAbc\<lparr>Status := InvoiceStatusPaid\<rparr>), memWorldPaid)"
    by (simp add: mem_defs)
  have paid: "Status (invoiceAbc\<lparr>Status := InvoiceStatusPaid\<rparr>) = InvoiceStatusPaid"
    by simp
  have pass: "fst (checkForInvoicePayments memEnv [(''abc'', entryAbc)] (start memWorldPaid))
      = (True, [''abc''])"
    by (simp add: checkForInvoicePayments_def checkEntry_def ext_defs mem_defs time_defs)
  from paid_entry_removed_without_oracle [OF fetch paid, of entryAbc "[]"]
  have "checkEntry memEnv ''abc'' entryAbc [] (start memWorldPaid) =
     Next [''abc'']
       \<lparr>world = memWorldPaid,
        calls = [CallGetInvoiceByToken ''abc'' (Inr (invoiceAbc\<lparr>Status := InvoiceStatusPaid\<rparr>))]\<rparr>"
    by (simp add: start_def)
  with pass show ?thesis by simp
qed

section \<open>Stopping the driver\<close>

text \<open>
  A pass that returns \<^verbatim>\<open>false\<close> returns no tokens, and the last call in its log is
  a store call that returned \<^verbatim>\<open>ErrShutdown\<close>. The log of the driver grows in the
  same way, cycle after cycle. A driver that has stopped within \<open>n\<close> cycles gives the
  same result with any larger bound, and a driver that is still running after \<open>k\<close>
  cycles goes on from the pool and the state it has reached.
\<close>

lemma pass_cases:
  assumes "checkForInvoicePayments e ps s = ((b, R), s1)"
  shows "(\<not> b \<longrightarrow> R = [] \<and> (\<exists>cs c. calls s1 = calls s @ cs @ [c] \<and> storeShutdown c))
       \<and> (b \<longrightarrow> (\<exists>cs. calls s1 = calls s @ cs \<and> \<not> list_ex storeShutdown cs))"
proof (cases "checkEntries e ps [] s")
  case (Return s')
  with assms have "\<not> b" "R = []" "s1 = s'" by (simp_all add: checkForInvoicePayments_def)
  with checkEntries_Return [OF Return] show ?thesis by blast
next
  case (Next toks s')
  with assms have "b" "s1 = s'" by (simp_all add: checkForInvoicePayments_def)
  with checkEntries_Next [OF Next] show ?thesis by blast
qed

lemma driver_log:
  "\<exists>cs. calls (runState (checkForPayments n e pool s)) = calls s @ cs
      \<and> (isStopped (checkForPayments n e pool s) \<longleftrightarrow> list_ex storeShutdown cs)
      \<and> (isStopped (checkForPayments n e pool s) \<longrightarrow> cs \<noteq> [] \<and> storeShutdown (last cs))"
proof (induction n arbitrary: pool s)
  case 0
  show ?case by (simp add: runState_def isStopped_def)
next
  case (Suc n)
  obtain b R s1 where pass:
    "checkForInvoicePayments e (createPolledPaymentsCopy pool) s = ((b, R), s1)"
    by (metis prod.exhaust)
  show ?case
  proof (cases b)
    case False
    with pass_cases [OF pass] obtain cs c where
      "calls s1 = calls s @ cs @ [c]" "storeShutdown c" by blast
    with pass False show ?thesis
      by (simp add: runState_def isStopped_def)
  next
    case True
    with pass_cases [OF pass] obtain cs1 where
      c1: "calls s1 = calls s @ cs1" "\<not> list_ex storeShutdown cs1" by blast
    let ?p = "removeInvoicesFromPolling R pool"
    let ?s = "timeSleep e pollCheckGap s1"
    from Suc.IH [of ?p ?s] obtain cs2 where
      c2: "calls (runState (checkForPayments n e ?p ?s)) = calls ?s @ cs2"
        "isStopped (checkForPayments n e ?p ?s) \<longleftrightarrow> list_ex storeShutdown cs2"
        "isStopped (checkForPayments n e ?p ?s) \<longrightarrow> cs2 \<noteq> [] \<and> storeShutdown (last cs2)"
      by blast
    have unfold: "checkForPayments (Suc n) e pool s = checkForPayments n e ?p ?s"
      using pass True by simp
    have sl: "calls ?s = calls s @ cs1 @ [CallSleep pollCheckGap]"
      using c1 by (simp add: timeSleep_def)
    have "calls (runState (checkForPayments (Suc n) e pool s))
        = calls s @ (cs1 @ [CallSleep pollCheckGap] @ cs2)"
      using unfold c2(1) sl by simp
    moreover have "isStopped (checkForPayments (Suc n) e pool s)
        \<longleftrightarrow> list_ex storeShutdown (cs1 @ [CallSleep pollCheckGap] @ cs2)"
      using unfold c2(2) c1(2) by (simp add: storeShutdown_def)
    moreover have "isStopped (checkForPayments (Suc n) e pool s)
        \<longrightarrow> cs1 @ [CallSleep pollCheckGap] @ cs2 \<noteq> []
          \<and> storeShutdown (last (cs1 @ [CallSleep pollCheckGap] @ cs2))"
      using unfold c2(3) by simp
    ultimately show ?thesis by blast
  qed
qed

lemma driver_fuel:
  "isStopped (checkForPayments n e pool s) \<Longrightarrow>
     checkForPayments (n + m) e pool s = checkForPayments n e pool s"
proof (induction n arbitrary: pool s)
  case 0
  then show ?case by (simp add: isStopped_def)
next
  case (Suc n)
  obtain b R s1 where pass:
    "checkForInvoicePayments e (createPolledPaymentsCopy pool) s = ((b, R), s1)"
    by (metis prod.exhaust)
  show ?case
  proof (cases b)
    case False
    with pass show ?thesis by simp
  next
    case True
    with pass Suc.prems have
      "isStopped (checkForPayments n e (removeInvoicesFromPolling R pool)
         (timeSleep e pollCheckGap s1))"
      by simp
    from Suc.IH [OF this] pass True show ?thesis by simp
  qed
qed

lemma driver_resume:
  "checkForPayments k e pool s = Running pool' s' \<Longrightarrow>
     checkForPayments (k + n) e pool s = checkForPayments n e pool' s'"
proof (induction k arbitrary: pool s)
  case 0
  then show ?case by simp
next
  case (Suc k)
  obtain b R s1 where pass:
    "checkForInvoicePayments e (createPolledPaymentsCopy pool) s = ((b, R), s1)"
    by (metis prod.exhaust)
  show ?case
  proof (cases b)
    case False
    with pass Suc.prems show ?thesis by simp
  next
    case True
    with pass Suc.prems have
      "checkForPayments k e (removeInvoicesFromPolling R pool)
         (timeSleep e pollCheckGap s1) = Running pool' s'"
      by simp
    from Suc.IH [OF this] pass True show ?thesis by simp
  qed
qed

text \<open>
  Claim C2. A pass returns \<^verbatim>\<open>false\<close> exactly when one of its store calls, a
  \<^verbatim>\<open>GetInvoiceByToken\<close> or an \<^verbatim>\<open>UpdateInvoice\<close>, returned
  \<^verbatim>\<open>ErrShutdown\<close>, and the driver has stopped within \<open>n\<close> cycles exactly when such
  a call is in the log of those cycles. When the driver stops, that call is the last call
  it made (the entries that were left in the snapshot are not visited), and running it for
  more cycles changes nothing: it has returned. When no store call of a pass returned
  \<^verbatim>\<open>ErrShutdown\<close>, whatever other errors it met, the driver removes the tokens of the
  pass, sleeps and runs the next cycle. The store of \<^verbatim>\<open>cockroachdb.go\<close> returns
  \<^verbatim>\<open>ErrShutdown\<close> from both calls once it has been closed.
\<close>

theorem driver_stops_iff_store_shutdown:
  "(fst (fst (checkForInvoicePayments e ps s)) = False \<longleftrightarrow>
      list_ex storeShutdown (newCalls s (snd (checkForInvoicePayments e ps s))))
   \<and> (isStopped (checkForPayments n e pool s) \<longleftrightarrow>
      list_ex storeShutdown (newCalls s (runState (checkForPayments n e pool s))))
   \<and> (isStopped (checkForPayments n e pool s) \<longrightarrow>
      storeShutdown (last (calls (runState (checkForPayments n e pool s)))) \<and>
      checkForPayments (n + m) e pool s = checkForPayments n e pool s)
   \<and> (\<not> list_ex storeShutdown
          (newCalls s (snd (checkForInvoicePayments e (createPolledPaymentsCopy pool) s))) \<longrightarrow>
      checkForPayments (Suc n) e pool s =
        checkForPayments n e
          (removeInvoicesFromPolling
             (snd (fst (checkForInvoicePayments e (createPolledPaymentsCopy pool) s))) pool)
          (timeSleep e pollCheckGap
             (snd (checkForInvoicePayments e (createPolledPaymentsCopy pool) s))))
   \<and> (shutdown c \<longrightarrow>
      cockroachdb_GetInvoiceByToken scan c token = (Inl ErrShutdown, c) \<and>
      cockroachdb_UpdateInvoice save c invoice = (Some ErrShutdown, c))"
proof -
  have five: "shutdown c \<longrightarrow>
      cockroachdb_GetInvoiceByToken scan c token = (Inl ErrShutdown, c) \<and>
      cockroachdb_UpdateInvoice save c invoice = (Some ErrShutdown, c)"
    by (simp add: cockroachdb_GetInvoiceByToken_def cockroachdb_UpdateInvoice_def)
  from driver_log [of n e pool s] obtain cs where
    cs: "calls (runState (checkForPayments n e pool s)) = calls s @ cs"
      "isStopped (checkForPayments n e pool s) \<longleftrightarrow> list_ex storeShutdown cs"
      "isStopped (checkForPayments n e pool s) \<longrightarrow> cs \<noteq> [] \<and> storeShutdown (last cs)"
    by blast
  have two: "isStopped (checkForPayments n e pool s) \<longleftrightarrow>
      list_ex storeShutdown (newCalls s (runState (checkForPayments n e pool s)))"
    using cs(1,2) by (simp add: newCalls_def)
  have three: "isStopped (checkForPayments n e pool s) \<longrightarrow>
      storeShutdown (last (calls (runState (checkForPayments n e pool s)))) \<and>
      checkForPayments (n + m) e pool s = checkForPayments n e pool s"
    using cs(1,3) driver_fuel [of n e pool s m] by simp
  have four: "\<not> list_ex storeShutdown
          (newCalls s (snd (checkForInvoicePayments e (createPolledPaymentsCopy pool) s))) \<longrightarrow>
      checkForPayments (Suc n) e pool s =
        checkForPayments n e
          (removeInvoicesFromPolling
             (snd (fst (checkForInvoicePayments e (createPolledPaymentsCopy pool) s))) pool)
          (timeSleep e pollCheckGap
             (snd (checkForInvoicePayments e (createPolledPaymentsCopy pool) s)))"
    using pass_False_iff [of e "createPolledPaymentsCopy pool" s]
    by (auto split: prod.splits)
  from pass_False_iff [of e ps s] two three four five show ?thesis by blast
qed

text \<open>
  Another goroutine closes the store after the first store call. At the second call, the
  update of the invoice, the store returns \<^verbatim>\<open>ErrShutdown\<close> and the driver stops,
  also when it is given more cycles. In a world where nobody closes the store, the driver
  goes into its second cycle.
\<close>

theorem driver_stops_iff_store_shutdown_witness:
  "isStopped (checkForPayments (Suc (Suc 0)) memEnv [(''abc'', entryAbc)]
      (start (memWorldTx\<lparr>closeAfter := Some 1\<rparr>)))
   \<and> last (calls (runState (checkForPayments (Suc (Suc 0)) memEnv [(''abc'', entryAbc)]
      (start (memWorldTx\<lparr>closeAfter := Some 1\<rparr>)))))
      = CallUpdateInvoice (invoiceAbc\<lparr>Status := InvoiceStatusPaid\<rparr>) (Some ErrShutdown)
   \<and> storeShutdown (last (calls (runState (checkForPayments (Suc (Suc 0)) memEnv
      [(''abc'', entryAbc)] (start (memWorldTx\<lparr>closeAfter := Some 1\<rparr>))))))
   \<and> checkForPayments (Suc (Suc 0) + 5) memEnv [(''abc'', entryAbc)]
        (start (memWorldTx\<lparr>closeAfter := Some 1\<rparr>))
      = checkForPayments (Suc (Suc 0)) memEnv [(''abc'', entryAbc)]
        (start (memWorldTx\<lparr>closeAfter := Some 1\<rparr>))
   \<and> \<not> list_ex storeShutdown (newCalls (start memWorld0)
        (snd (checkForInvoicePayments memEnv (createPolledPaymentsCopy [(''abc'', entryAbc)])
           (start memWorld0))))
   \<and> checkForPayments (Suc (Suc 0)) memEnv [(''abc'', entryAbc)] (start memWorld0)
      = checkForPayments (Suc 0) memEnv [(''abc'', entryAbc)]
          (timeSleep memEnv pollCheckGap
             (snd (checkForInvoicePayments memEnv
                (createPolledPaymentsCopy [(''abc'', entryAbc)]) (start memWorld0))))
   \<and> cockroachdb_GetInvoiceByToken memScan
        (cockroachdb_Close \<lparr>shutdown = False, db = [invoiceAbc]\<rparr>) ''abc''
      = (Inl ErrShutdown, \<lparr>shutdown = True, db = [invoiceAbc]\<rparr>)
   \<and> cockroachdb_UpdateInvoice memSave
        (cockroachdb_Close \<lparr>shutdown = False, db = [invoiceAbc]\<rparr>) invoiceAbc
      = (Some ErrShutdown, \<lparr>shutdown = True, db = [invoiceAbc]\<rparr>)"
proof -
  let ?p = "[(''abc'', entryAbc)]"
  let ?s = "start (memWorldTx\<lparr>closeAfter := Some 1\<rparr>)"
  let ?c = "\<lparr>shutdown = True, db = [invoiceAbc]\<rparr>"
  have closed: "cockroachdb_Close \<lparr>shutdown = False, db = [invoiceAbc]\<rparr> = ?c"
    by (simp add: cockroachdb_Close_def)
  have down: "shutdown ?c"
    by simp
  from driver_stops_iff_store_shutdown
    [where c = ?c and scan = memScan and save = memSave and token = "''abc''"
       and invoice = invoiceAbc and e = memEnv and ps = ?p and s = ?s and n = 0
       and pool = ?p and m = 0] down
  have c: "cockroachdb_GetInvoiceByToken memScan ?c ''abc'' = (Inl ErrShutdown, ?c)
      \<and> cockroachdb_UpdateInvoice memSave ?c invoiceAbc = (Some ErrShutdown, ?c)"
    by blast
  have stopped: "isStopped (checkForPayments (Suc (Suc 0)) memEnv ?p ?s)"
    by (simp add: run_defs mem_defs time_defs isStopped_def)
  have lastc: "last (calls (runState (checkForPayments (Suc (Suc 0)) memEnv ?p ?s)))
      = CallUpdateInvoice (invoiceAbc\<lparr>Status := InvoiceStatusPaid\<rparr>) (Some ErrShutdown)"
    by (simp add: run_defs mem_defs time_defs runState_def)
  have quiet: "\<not> list_ex storeShutdown (newCalls (start memWorld0)
        (snd (checkForInvoicePayments memEnv (createPolledPaymentsCopy ?p) (start memWorld0))))"
    by (simp add: run_defs mem_defs time_defs newCalls_def storeShutdown_def)
  have none: "snd (fst (checkForInvoicePayments memEnv (createPolledPaymentsCopy ?p)
        (start memWorld0))) = []"
    by (simp add: run_defs mem_defs time_defs)
  have keep: "removeInvoicesFromPolling [] ?p = ?p"
    by (simp add: removeInvoicesFromPolling_def)
  from driver_stops_iff_store_shutdown [of memEnv ?p ?s "Suc (Suc 0)" ?p 5] stopped
  have a: "storeShutdown (last (calls (runState (checkForPayments (Suc (Suc 0)) memEnv ?p ?s))))
      \<and> checkForPayments (Suc (Suc 0) + 5) memEnv ?p ?s
        = checkForPayments (Suc (Suc 0)) memEnv ?p ?s"
    by blast
  from driver_stops_iff_store_shutdown [of memEnv ?p "start memWorld0" "Suc 0" ?p 0] quiet
  have b: "checkForPayments (Suc (Suc 0)) memEnv ?p (start memWorld0)
      = checkForPayments (Suc 0) memEnv
          (removeInvoicesFromPolling
             (snd (fst (checkForInvoicePayments memEnv (createPolledPaymentsCopy ?p)
                (start memWorld0)))) ?p)
          (timeSleep memEnv pollCheckGap
             (snd (checkForInvoicePayments memEnv (createPolledPaymentsCopy ?p)
                (start memWorld0))))"
    by blast
  from stopped lastc quiet a b c closed none keep show ?thesis by simp
qed

text \<open>
  Claim C9. When the pass of some cycle returns \<^verbatim>\<open>false\<close>, the list it returns is
  empty, and the driver returns at once: the pool is the pool with which that cycle began.
\<close>

theorem shutdown_leaves_pool_unchanged:
  assumes run: "checkForPayments k e pool s = Running pool' s'"
    and stop: "checkForInvoicePayments e (createPolledPaymentsCopy pool') s' = ((False, R), s1)"
  shows "R = [] \<and> checkForPayments (k + Suc n) e pool s = Stopped pool' s1"
proof -
  from pass_cases [OF stop] have "R = []" by simp
  moreover from stop have "checkForPayments (Suc n) e pool' s' = Stopped pool' s1" by simp
  ultimately show ?thesis using driver_resume [OF run, of "Suc n"] by simp
qed

text \<open>
  The pool has two entries and the store is closed after the first store call. The first
  entry is found paid, so that its removal is decided; the fetch for the second entry
  returns \<^verbatim>\<open>ErrShutdown\<close>, and the driver returns with both entries in the pool.
\<close>

theorem shutdown_leaves_pool_unchanged_witness:
  "checkEntries memEnv [(''abc'', entryAbc)] [] (start (memWorldPaid\<lparr>closeAfter := Some 1\<rparr>))
     = Next [''abc'']
         \<lparr>world = memWorldPaid\<lparr>closeAfter := Some 0\<rparr>,
          calls = [CallGetInvoiceByToken ''abc''
                     (Inr (invoiceAbc\<lparr>Status := InvoiceStatusPaid\<rparr>))]\<rparr>
   \<and> checkForPayments (0 + Suc 2) memEnv poolTwo (start (memWorldPaid\<lparr>closeAfter := Some 1\<rparr>))
     = Stopped poolTwo
         \<lparr>world = memWorldPaid
            \<lparr>closeAfter := Some 0,
             store := \<lparr>shutdown = True, db = [invoiceAbc\<lparr>Status := InvoiceStatusPaid\<rparr>]\<rparr>\<rparr>,
          calls = [CallGetInvoiceByToken ''abc''
                     (Inr (invoiceAbc\<lparr>Status := InvoiceStatusPaid\<rparr>)),
                   CallGetInvoiceByToken ''xyz'' (Inl ErrShutdown)]\<rparr>"
proof -
  let ?s = "start (memWorldPaid\<lparr>closeAfter := Some 1\<rparr>)"
  let ?s1 = "\<lparr>world = memWorldPaid
            \<lparr>closeAfter := Some 0,
             store := \<lparr>shutdown = True, db = [invoiceAbc\<lparr>Status := InvoiceStatusPaid\<rparr>]\<rparr>\<rparr>,
          calls = [CallGetInvoiceByToken ''abc''
                     (Inr (invoiceAbc\<lparr>Status := InvoiceStatusPaid\<rparr>)),
                   CallGetInvoiceByToken ''xyz'' (Inl ErrShutdown)]\<rparr>"
  have decided: "checkEntries memEnv [(''abc'', entryAbc)] [] ?s
     = Next [''abc'']
         \<lparr>world = memWorldPaid\<lparr>closeAfter := Some 0\<rparr>,
          calls = [CallGetInvoiceByToken ''abc''
                     (Inr (invoiceAbc\<lparr>Status := InvoiceStatusPaid\<rparr>))]\<rparr>"
    by (simp add: run_defs mem_defs)
  have run: "checkForPayments 0 memEnv poolTwo ?s = Running poolTwo ?s"
    by simp
  have stop: "checkForInvoicePayments memEnv (createPolledPaymentsCopy poolTwo) ?s
      = ((False, []), ?s1)"
    by (simp add: run_defs mem_defs)
  from shutdown_leaves_pool_unchanged [OF run stop, of 2] decided
  show ?thesis by simp
qed

section \<open>Entries that expire\<close>

text \<open>
  Claim C3, as the code has it. Take an entry whose poll has expired when the iteration
  for it has fetched the invoice (the clock reading that the iteration would take then).
  Whatever the fetch returned, the fetch is the only call of the iteration: the invoice is
  not updated and the explorer is not asked. The token is appended to
  \<^verbatim>\<open>tokensToRemove\<close> when the fetch succeeded and returned the invoice of that token,
  and then it is in the list that the pass returns, whenever the pass returns
  \<^verbatim>\<open>true\<close>. When the fetch failed with an error other than \<^verbatim>\<open>ErrShutdown\<close>,
  the iteration goes on to the next entry with \<^verbatim>\<open>tokensToRemove\<close> as it was.
\<close>

theorem expired_entry_no_write_no_query:
  assumes fetch: "GetInvoiceByToken e (world s) token = (r, w1)"
    and expired: "pollHasExpired (fst (Now e w1)) (pollExpiry pp)"
  shows "newCalls s (stepState (checkEntry e token pp toks s)) = [CallGetInvoiceByToken token r]
       \<and> (\<forall>invoice. r = Inr invoice \<and> Token invoice = token \<longrightarrow>
            (\<exists>s'. checkEntry e token pp toks s = Next (toks @ [token]) s') \<and>
            (\<forall>before after s0 R sf.
               checkEntries e before [] s0 = Next toks s \<and>
               checkForInvoicePayments e (before @ (token, pp) # after) s0 = ((True, R), sf)
               \<longrightarrow> token \<in> set R))
       \<and> (\<forall>err. r = Inl err \<and> err \<noteq> ErrShutdown \<longrightarrow>
            checkEntry e token pp toks s =
              Next toks \<lparr>world = w1, calls = calls s @ [CallGetInvoiceByToken token r]\<rparr>)"
proof -
  have skipped: "checkEntry e token pp toks s =
      Next toks \<lparr>world = w1, calls = calls s @ [CallGetInvoiceByToken token r]\<rparr>"
    if "r = Inl err" "err \<noteq> ErrShutdown" for err
    using fetch that by (simp add: checkEntry_def ext_defs)
  have log: "newCalls s (stepState (checkEntry e token pp toks s))
      = [CallGetInvoiceByToken token r]"
    using assms
    by (auto simp: checkEntry_def ext_defs newCalls_def stepState_def
        split: prod.splits sum.splits)
  have "\<exists>s'. checkEntry e token pp toks s = Next (toks @ [token]) s'"
    if "r = Inr invoice" "Token invoice = token" for invoice
    using assms that
    by (auto simp: checkEntry_def ext_defs split: prod.splits)
  with log skipped pass_keeps_token show ?thesis by blast
qed

text \<open>
  The claim as the spec words it does not hold. The poll of the entry \<^verbatim>\<open>old\<close> has
  expired and its invoice is not in the table: the fetch fails with
  \<^verbatim>\<open>ErrInvoiceNotFound\<close>, the iteration leaves the body by \<^verbatim>\<open>continue\<close> before the
  expiry is looked at, and the pass returns no token.
\<close>

theorem expired_entry_not_removed_counterexample:
  "pollHasExpired (clock memWorld0) (pollExpiry entryOld)
   \<and> checkForInvoicePayments memEnv [(''old'', entryOld)] (start memWorld0)
     = ((True, []),
        \<lparr>world = memWorld0,
         calls = [CallGetInvoiceByToken ''old'' (Inl ErrInvoiceNotFound)]\<rparr>)"
  by (simp add: run_defs mem_defs time_defs)

text \<open>
  The poll of the entry has expired and its invoice is in the table, not paid: the fetch
  is the only call, and the token is returned.
\<close>

theorem expired_entry_no_write_no_query_witness:
  "newCalls (start memWorld0) (stepState (checkEntry memEnv ''abc'' entryOld [] (start memWorld0)))
     = [CallGetInvoiceByToken ''abc'' (Inr invoiceAbc)]
   \<and> (\<exists>s'. checkEntry memEnv ''abc'' entryOld [] (start memWorld0) = Next [''abc''] s')
   \<and> fst (checkForInvoicePayments memEnv [(''abc'', entryOld)] (start memWorld0))
     = (True, [''abc''])
   \<and> checkEntry memEnv ''old'' entryOld [] (start memWorld0)
     = Next [] \<lparr>world = memWorld0,
                 calls = [CallGetInvoiceByToken ''old'' (Inl ErrInvoiceNotFound)]\<rparr>"
proof -
  have missing: "GetInvoiceByToken memEnv (world (start memWorld0)) ''old''
      = (Inl ErrInvoiceNotFound, memWorld0)"
    by (simp add: mem_defs)
  have other: "ErrInvoiceNotFound \<noteq> ErrShutdown"
    by simp
  have fetch: "GetInvoiceByToken memEnv (world (start memWorld0)) ''abc''
      = (Inr invoiceAbc, memWorld0)"
    by (simp add: mem_defs)
  have expired: "pollHasExpired (fst (Now memEnv memWorld0)) (pollExpiry entryOld)"
    by (simp add: mem_defs time_defs)
  have tok: "Token invoiceAbc = ''abc''"
    by (simp add: mem_defs)
  have pass: "fst (checkForInvoicePayments memEnv [(''abc'', entryOld)] (start memWorld0))
      = (True, [''abc''])"
    by (simp add: run_defs mem_defs time_defs)
  from expired_entry_no_write_no_query [OF missing expired, of "[]"] other
  have skip: "checkEntry memEnv ''old'' entryOld [] (start memWorld0)
     = Next [] \<lparr>world = memWorld0,
                 calls = [CallGetInvoiceByToken ''old'' (Inl ErrInvoiceNotFound)]\<rparr>"
    by (simp add: start_def)
  from expired_entry_no_write_no_query [OF fetch expired, of "[]"] tok
  have "newCalls (start memWorld0)
        (stepState (checkEntry memEnv ''abc'' entryOld [] (start memWorld0)))
      = [CallGetInvoiceByToken ''abc'' (Inr invoiceAbc)]
    \<and> (\<exists>s'. checkEntry memEnv ''abc'' entryOld [] (start memWorld0) = Next [''abc''] s')"
    by simp
  with pass skip show ?thesis by simp
qed

section \<open>Entries that stay\<close>

text \<open>
  What the driver removes from the pool, and which tokens a pass can return when the store
  answers a fetch with the invoice that was asked for.
\<close>

lemma map_of_remove:
  "map_of (removeInvoicesFromPolling R pool) k = (if k \<in> set R then None else map_of pool k)"
proof (induction R arbitrary: pool)
  case Nil
  show ?case by (simp add: removeInvoicesFromPolling_def)
next
  case (Cons t R)
  have "removeInvoicesFromPolling (t # R) pool = removeInvoicesFromPolling R (AList.delete t pool)"
    by (simp add: removeInvoicesFromPolling_def)
  then show ?case by (simp add: Cons.IH delete_conv')
qed

lemma checkEntry_adds:
  assumes faithful: "\<forall>w t i w'. GetInvoiceByToken e w t = (Inr i, w') \<longrightarrow> Token i = t"
    and one: "checkEntry e token pp toks s = Next toks' s'"
  shows "set toks' \<subseteq> insert token (set toks)"
proof -
  have "Token i = token" if "GetInvoiceByToken e (world s) token = (Inr i, w')" for i w'
    using faithful that by blast
  with one show ?thesis
    unfolding checkEntry_def ext_defs
    by (auto split: prod.splits sum.splits if_splits option.splits)
qed

lemma checkEntries_adds:
  assumes faithful: "\<forall>w t i w'. GetInvoiceByToken e w t = (Inr i, w') \<longrightarrow> Token i = t"
  shows "checkEntries e xs toks s = Next toks' s' \<Longrightarrow> set toks' \<subseteq> set toks \<union> fst ` set xs"
proof (induction xs arbitrary: toks s)
  case Nil
  then show ?case by simp
next
  case (Cons x xs)
  obtain t pp where x: "x = (t, pp)" by (cases x)
  from Cons.prems x obtain toks1 s1 where
    one: "checkEntry e t pp toks s = Next toks1 s1" and
    rest: "checkEntries e xs toks1 s1 = Next toks' s'"
    by (auto split: step.splits)
  from checkEntry_adds [OF faithful one] Cons.IH [OF rest] x show ?case by auto
qed

text \<open>
  Claim C5. If the fetch succeeds with a status other than paid, the poll has not expired,
  and the explorer returns the empty transaction id without an error, then the iteration
  leaves \<^verbatim>\<open>tokensToRemove\<close> as it was and makes three calls, the fetch, the query and
  the sleep: the invoice is not updated. In a snapshot with distinct tokens, against a
  store that answers a fetch with the invoice of the token asked for, the list that the
  pass returns does not contain the token, and removing that list from a pool leaves the
  entry of the token in it.
\<close>

theorem pending_entry_kept_without_update:
  assumes fetch: "GetInvoiceByToken e (world s) token = (Inr invoice, w1)"
    and unpaid: "Status invoice \<noteq> InvoiceStatusPaid"
    and clock: "Now e w1 = (now, w2)"
    and live: "\<not> pollHasExpired now (pollExpiry pp)"
    and answer: "FetchTxWithBlockExplorers e w2 (address pp) (amount pp) (txNotBefore pp)
                   (MinConfirmationsRequired e) = (Inr [], w3)"
  shows "checkEntry e token pp toks s =
           Next toks
             \<lparr>world = Sleep e w3 pollCheckGap,
              calls = calls s @
                [CallGetInvoiceByToken token (Inr invoice),
                 CallFetchTx (address pp) (amount pp) (txNotBefore pp)
                   (MinConfirmationsRequired e) (Inr []),
                 CallSleep pollCheckGap]\<rparr>
         \<and> (\<forall>before after s0 b R sf pool.
               (\<forall>w t i w'. GetInvoiceByToken e w t = (Inr i, w') \<longrightarrow> Token i = t) \<and>
               distinct (map fst (before @ (token, pp) # after)) \<and>
               checkEntries e before [] s0 = Next toks s \<and>
               checkForInvoicePayments e (before @ (token, pp) # after) s0 = ((b, R), sf)
               \<longrightarrow> token \<notin> set R \<and>
                   map_of (removeInvoicesFromPolling R pool) token = map_of pool token)"
proof -
  let ?s' = "\<lparr>world = Sleep e w3 pollCheckGap,
              calls = calls s @
                [CallGetInvoiceByToken token (Inr invoice),
                 CallFetchTx (address pp) (amount pp) (txNotBefore pp)
                   (MinConfirmationsRequired e) (Inr []),
                 CallSleep pollCheckGap]\<rparr>"
  have one: "checkEntry e token pp toks s = Next toks ?s'"
    using assms by (simp add: checkEntry_def ext_defs)
  have kept: "token \<notin> set R"
    if faithful: "\<forall>w t i w'. GetInvoiceByToken e w t = (Inr i, w') \<longrightarrow> Token i = t"
      and keys: "distinct (map fst (before @ (token, pp) # after))"
      and pre: "checkEntries e before [] s0 = Next toks s"
      and pass: "checkForInvoicePayments e (before @ (token, pp) # after) s0 = ((b, R), sf)"
    for before after s0 b R sf
  proof (cases b)
    case False
    with pass_cases [OF pass] show ?thesis by simp
  next
    case True
    from pre one have "checkEntries e (before @ (token, pp) # after) [] s0
        = checkEntries e after toks ?s'"
      by (simp add: checkEntries_append)
    with pass True have rest: "checkEntries e after toks ?s' = Next R sf"
      by (auto simp: checkForInvoicePayments_def split: step.splits)
    from checkEntries_adds [OF faithful pre] have "set toks \<subseteq> fst ` set before" by simp
    moreover from checkEntries_adds [OF faithful rest]
    have "set R \<subseteq> set toks \<union> fst ` set after" .
    moreover from keys have "token \<notin> fst ` set before" "token \<notin> fst ` set after"
      by auto
    ultimately show ?thesis by blast
  qed
  have whole: "token \<notin> set R \<and>
      map_of (removeInvoicesFromPolling R pool) token = map_of pool token"
    if "(\<forall>w t i w'. GetInvoiceByToken e w t = (Inr i, w') \<longrightarrow> Token i = t) \<and>
        distinct (map fst (before @ (token, pp) # after)) \<and>
        checkEntries e before [] s0 = Next toks s \<and>
        checkForInvoicePayments e (before @ (token, pp) # after) s0 = ((b, R), sf)"
    for before after s0 b R sf and pool :: pool
  proof -
    from that have "token \<notin> set R"
      using kept [of before after s0 b R sf] by blast
    then show ?thesis by (simp add: map_of_remove)
  qed
  show ?thesis
  proof (rule conjI)
    show "checkEntry e token pp toks s = Next toks ?s'" by (rule one)
  next
    show "\<forall>before after s0 b R sf pool.
               (\<forall>w t i w'. GetInvoiceByToken e w t = (Inr i, w') \<longrightarrow> Token i = t) \<and>
               distinct (map fst (before @ (token, pp) # after)) \<and>
               checkEntries e before [] s0 = Next toks s \<and>
               checkForInvoicePayments e (before @ (token, pp) # after) s0 = ((b, R), sf)
               \<longrightarrow> token \<notin> set R \<and>
                   map_of (removeInvoicesFromPolling R pool) token = map_of pool token"
      using whole by (intro allI impI)
  qed
qed

text \<open>
  The scenario of the spec: the explorer returns the empty transaction id for the entry
  \<^verbatim>\<open>abc\<close>. The pass returns no token, so that the entry stays in the pool, and the
  store is not written to.
\<close>

theorem pending_entry_kept_without_update_witness:
  "checkEntry memEnv ''abc'' entryAbc [] (start memWorld0) =
     Next []
       \<lparr>world = memWorld0\<lparr>clock := \<lparr>sec = 1005, nsec = 0\<rparr>\<rparr>,
        calls =
          [CallGetInvoiceByToken ''abc'' (Inr invoiceAbc),
           CallFetchTx ''A1'' 500 1000 2 (Inr []),
           CallSleep 5000000000]\<rparr>
   \<and> fst (checkForInvoicePayments memEnv [(''abc'', entryAbc)] (start memWorld0)) = (True, [])
   \<and> map_of (removeInvoicesFromPolling
        (snd (fst (checkForInvoicePayments memEnv [(''abc'', entryAbc)] (start memWorld0))))
        [(''abc'', entryAbc)]) ''abc'' = Some entryAbc"
proof -
  have fetch: "GetInvoiceByToken memEnv (world (start memWorld0)) ''abc''
      = (Inr invoiceAbc, memWorld0)"
    by (simp add: mem_defs)
  have unpaid: "Status invoiceAbc \<noteq> InvoiceStatusPaid"
    by (simp add: mem_defs)
  have clock: "Now memEnv memWorld0 = (\<lparr>sec = 1000, nsec = 0\<rparr>, memWorld0)"
    by (simp add: mem_defs)
  have live: "\<not> pollHasExpired \<lparr>sec = 1000, nsec = 0\<rparr> (pollExpiry entryAbc)"
    by (simp add: mem_defs time_defs)
  have answer: "FetchTxWithBlockExplorers memEnv memWorld0 (address entryAbc)
      (amount entryAbc) (txNotBefore entryAbc) (MinConfirmationsRequired memEnv)
      = (Inr [], memWorld0)"
    by (simp add: mem_defs)
  have sleep: "Sleep memEnv memWorld0 5000000000 = memWorld0\<lparr>clock := \<lparr>sec = 1005, nsec = 0\<rparr>\<rparr>"
    by (simp add: mem_defs)
  have conf: "MinConfirmationsRequired memEnv = 2"
    by (simp add: mem_defs)
  have faithful: "\<forall>w t i w'. GetInvoiceByToken memEnv w t = (Inr i, w') \<longrightarrow> Token i = t"
    by (auto simp: mem_defs find_Some_iff split: if_splits option.splits)
  have keys: "distinct (map fst ([] @ (''abc'', entryAbc) # []))"
    by simp
  have pre: "checkEntries memEnv [] [] (start memWorld0) = Next [] (start memWorld0)"
    by simp
  obtain b R sf where pass:
    "checkForInvoicePayments memEnv ([] @ (''abc'', entryAbc) # []) (start memWorld0) = ((b, R), sf)"
    by (metis prod.exhaust)
  note th = pending_entry_kept_without_update [OF fetch unpaid clock live answer, of "[]"]
  from th have step: "checkEntry memEnv ''abc'' entryAbc [] (start memWorld0) =
     Next []
       \<lparr>world = memWorld0\<lparr>clock := \<lparr>sec = 1005, nsec = 0\<rparr>\<rparr>,
        calls =
          [CallGetInvoiceByToken ''abc'' (Inr invoiceAbc),
           CallFetchTx ''A1'' 500 1000 2 (Inr []),
           CallSleep 5000000000]\<rparr>"
    by (simp add: sleep conf entryAbc_def start_def pollCheckGap_def)
  from th faithful keys pre pass
  have kept: "map_of (removeInvoicesFromPolling R [(''abc'', entryAbc)]) ''abc''
      = map_of [(''abc'', entryAbc)] ''abc''"
    by blast
  have res: "fst (checkForInvoicePayments memEnv [(''abc'', entryAbc)] (start memWorld0))
      = (True, [])"
    by (simp add: run_defs mem_defs time_defs)
  from pass have "R = snd (fst (checkForInvoicePayments memEnv [(''abc'', entryAbc)]
      (start memWorld0)))"
    by simp
  with kept step res show ?thesis by simp
qed

section \<open>The sleep between entries\<close>

text \<open>
  Claim C6, as the code has it. The iteration for an entry ends with one sleep of
  \<^verbatim>\<open>pollCheckGap\<close> when the explorer answered without an error and either found no
  transaction or the update of the invoice succeeded. It does not sleep when the fetch of
  the invoice failed with an error other than \<^verbatim>\<open>ErrShutdown\<close>, when the invoice is
  already paid, or when the poll has expired: these leave the body by \<^verbatim>\<open>continue\<close>.
\<close>

theorem sleep_only_after_explorer_answer:
  assumes fetch: "GetInvoiceByToken e (world s) token = (r, w1)"
  shows "((\<exists>err. r = Inl err \<and> err \<noteq> ErrShutdown) \<or>
          (\<exists>invoice. r = Inr invoice \<and>
             (Status invoice = InvoiceStatusPaid \<or>
              pollHasExpired (fst (Now e w1)) (pollExpiry pp)))
          \<longrightarrow> (\<exists>toks' s'. checkEntry e token pp toks s = Next toks' s' \<and>
                 \<not> list_ex isSleep (newCalls s s')))
       \<and> (\<forall>invoice tx w3.
            r = Inr invoice \<and> Status invoice \<noteq> InvoiceStatusPaid \<and>
            \<not> pollHasExpired (fst (Now e w1)) (pollExpiry pp) \<and>
            FetchTxWithBlockExplorers e (snd (Now e w1)) (address pp) (amount pp)
              (txNotBefore pp) (MinConfirmationsRequired e) = (Inr tx, w3) \<and>
            (tx = [] \<or> fst (UpdateInvoice e w3 (invoice\<lparr>Status := InvoiceStatusPaid\<rparr>)) = None)
            \<longrightarrow> (\<exists>toks' s' cs. checkEntry e token pp toks s = Next toks' s' \<and>
                   newCalls s s' = cs @ [CallSleep pollCheckGap] \<and> \<not> list_ex isSleep cs))"
proof -
  have quiet: "\<exists>toks' s'. checkEntry e token pp toks s = Next toks' s' \<and>
                 \<not> list_ex isSleep (newCalls s s')"
    if "(\<exists>err. r = Inl err \<and> err \<noteq> ErrShutdown) \<or>
          (\<exists>invoice. r = Inr invoice \<and>
             (Status invoice = InvoiceStatusPaid \<or>
              pollHasExpired (fst (Now e w1)) (pollExpiry pp)))"
    using fetch that
    by (auto simp: checkEntry_def ext_defs newCalls_def isSleep_def split: prod.splits)
  have slept: "\<exists>toks' s' cs. checkEntry e token pp toks s = Next toks' s' \<and>
                   newCalls s s' = cs @ [CallSleep pollCheckGap] \<and> \<not> list_ex isSleep cs"
    if "r = Inr invoice" "Status invoice \<noteq> InvoiceStatusPaid"
      "\<not> pollHasExpired (fst (Now e w1)) (pollExpiry pp)"
      "FetchTxWithBlockExplorers e (snd (Now e w1)) (address pp) (amount pp)
              (txNotBefore pp) (MinConfirmationsRequired e) = (Inr tx, w3)"
      "tx = [] \<or> fst (UpdateInvoice e w3 (invoice\<lparr>Status := InvoiceStatusPaid\<rparr>)) = None"
    for invoice tx w3
    using fetch that
    by (auto simp: checkEntry_def ext_defs newCalls_def isSleep_def split: prod.splits)
  from quiet slept show ?thesis by blast
qed

text \<open>
  The claim as the spec words it does not hold. In a pass over two entries, the first
  with a paid invoice and the second with an invoice that the table does not have, the two
  fetches follow each other: there is no sleep between the entries, and none in the pass.
\<close>

theorem no_sleep_after_paid_entry_counterexample:
  "checkForInvoicePayments memEnv poolTwo (start memWorldPaid)
     = ((True, [''abc'']),
        \<lparr>world = memWorldPaid,
         calls = [CallGetInvoiceByToken ''abc''
                    (Inr (invoiceAbc\<lparr>Status := InvoiceStatusPaid\<rparr>)),
                  CallGetInvoiceByToken ''xyz'' (Inl ErrInvoiceNotFound)]\<rparr>)
   \<and> \<not> list_ex isSleep
         (calls (snd (checkForInvoicePayments memEnv poolTwo (start memWorldPaid))))"
  by (simp add: run_defs mem_defs time_defs isSleep_def)

text \<open>
  An entry with a paid invoice, without a sleep, and an entry for which the explorer finds
  no transaction, with one.
\<close>

theorem sleep_only_after_explorer_answer_witness:
  "(\<exists>toks' s'. checkEntry memEnv ''abc'' entryAbc [] (start memWorldPaid) = Next toks' s' \<and>
       \<not> list_ex isSleep (newCalls (start memWorldPaid) s'))
   \<and> (\<exists>toks' s' cs. checkEntry memEnv ''abc'' entryAbc [] (start memWorld0) = Next toks' s' \<and>
       newCalls (start memWorld0) s' = cs @ [CallSleep pollCheckGap] \<and> \<not> list_ex isSleep cs)"
proof -
  have fetchPaid: "GetInvoiceByToken memEnv (world (start memWorldPaid)) ''abc''
      = (Inr (invoiceAbc\<lparr>Status := InvoiceStatusPaid\<rparr>), memWorldPaid)"
    by (simp add: mem_defs)
  have fetch: "GetInvoiceByToken memEnv (world (start memWorld0)) ''abc''
      = (Inr invoiceAbc, memWorld0)"
    by (simp add: mem_defs)
  have unpaid: "Status invoiceAbc \<noteq> InvoiceStatusPaid"
    by (simp add: mem_defs)
  have live: "\<not> pollHasExpired (fst (Now memEnv memWorld0)) (pollExpiry entryAbc)"
    by (simp add: mem_defs time_defs)
  have answer: "FetchTxWithBlockExplorers memEnv (snd (Now memEnv memWorld0)) (address entryAbc)
      (amount entryAbc) (txNotBefore entryAbc) (MinConfirmationsRequired memEnv)
      = (Inr [], memWorld0)"
    by (simp add: mem_defs)
  from sleep_only_after_explorer_answer [OF fetchPaid, of entryAbc "[]"]
  have a: "\<exists>toks' s'. checkEntry memEnv ''abc'' entryAbc [] (start memWorldPaid) = Next toks' s' \<and>
       \<not> list_ex isSleep (newCalls (start memWorldPaid) s')"
    by simp
  from sleep_only_after_explorer_answer [OF fetch, of entryAbc "[]"] unpaid live answer
  have b: "\<exists>toks' s' cs. checkEntry memEnv ''abc'' entryAbc [] (start memWorld0) = Next toks' s' \<and>
       newCalls (start memWorld0) s' = cs @ [CallSleep pollCheckGap] \<and> \<not> list_ex isSleep cs"
    by blast
  from a b show ?thesis by blast
qed

section \<open>The expiry test\<close>

text \<open>
  The instant of a poll expiry. When \<open>x + unixToInternal\<close> fits an \<^verbatim>\<open>int64\<close>, the
  instant is \<open>x\<close> seconds after the epoch; when it does not, the sum wraps around and the
  instant lies \<open>2 ^ 64\<close> seconds before that.
\<close>

lemma sint_unixToInternal: "sint unixToInternal = 62135596800"
  by (simp add: unixToInternal_def)

lemma unixTime_sec_fits:
  assumes "sint x + 62135596800 < 2 ^ 63"
  shows "sec (unixTime x n) = sint x"
proof -
  have lo: "- (2 ^ 63) \<le> sint x"
    using sint_ge [of x] by simp
  have "sint (x + unixToInternal) = signed_take_bit 63 (sint x + sint unixToInternal)"
    by (simp add: sint_word_ariths)
  also have "\<dots> = sint x + 62135596800"
    using assms lo by (simp add: sint_unixToInternal signed_take_bit_int_eq_self)
  finally show ?thesis
    by (simp add: unixTime_def sint_unixToInternal)
qed

lemma unixTime_sec_wraps:
  assumes "2 ^ 63 \<le> sint x + 62135596800"
  shows "sec (unixTime x n) = sint x - 2 ^ 64"
proof -
  have hi: "sint x < 2 ^ 63"
    using sint_lt [of x] by simp
  have "sint (x + unixToInternal) = signed_take_bit 63 (sint x + sint unixToInternal)"
    by (simp add: sint_word_ariths)
  also have "\<dots> = signed_take_bit 63 (sint x + 62135596800 - 2 ^ 64)"
  proof -
    have "take_bit (Suc 63) (k - 2 ^ Suc 63) = take_bit (Suc 63) k" for k :: int
      by (simp only: take_bit_eq_mod minus_mod_self2)
    then have "signed_take_bit 63 (k - 2 ^ Suc 63) = signed_take_bit 63 k" for k :: int
      by (simp only: signed_take_bit_eq_iff_take_bit_eq)
    from this [of "sint x + 62135596800"]
    have "signed_take_bit 63 (sint x + 62135596800)
        = signed_take_bit 63 (sint x + 62135596800 - 2 ^ 64)"
      by simp
    then show ?thesis by (simp add: sint_unixToInternal)
  qed
  also have "\<dots> = sint x + 62135596800 - 2 ^ 64"
    using assms hi by (simp add: signed_take_bit_int_eq_self)
  finally show ?thesis
    by (simp add: unixTime_def sint_unixToInternal)
qed

lemma Unix_zero: "Unix x 0 = unixTime x 0"
  by (simp add: Unix_def)

lemma pollHasExpired_fits:
  assumes "sint x + 62135596800 < 2 ^ 63"
  shows "pollHasExpired now x \<longleftrightarrow> sint x < sec now \<or> (sec now = sint x \<and> 0 < nsec now)"
  using unixTime_sec_fits [OF assms, of 0]
  by (auto simp: pollHasExpired_def After_def Unix_zero unixTime_def)

lemma pollHasExpired_wraps:
  assumes "2 ^ 63 \<le> sint x + 62135596800"
  shows "pollHasExpired now x \<longleftrightarrow>
    sint x - 2 ^ 64 < sec now \<or> (sec now = sint x - 2 ^ 64 \<and> 0 < nsec now)"
  using unixTime_sec_wraps [OF assms, of 0]
  by (auto simp: pollHasExpired_def After_def Unix_zero unixTime_def)

lemma pollHasExpired_irrefl: "\<not> pollHasExpired (Unix x 0) x"
  by (simp add: pollHasExpired_def After_def)

text \<open>
  An entry whose poll expiry is the largest \<^verbatim>\<open>int64\<close>, in a world where the explorer
  has a transaction for its address: the poll has expired, the entry is removed after the
  fetch, and the invoice is not updated.
\<close>

lemma far_expiry_entry_expired:
  "checkForInvoicePayments memEnv [(''far'', entryFar)] (start memWorldFarTx)
     = ((True, [''far'']),
        \<lparr>world = memWorldFarTx,
         calls = [CallGetInvoiceByToken ''far'' (Inr invoiceFar)]\<rparr>)"
  by (simp add: run_defs mem_defs time_defs)

text \<open>
  Claim C10, as the code has it. Take an expiry \<open>x\<close> for which \<open>x + 62135596800\<close> fits
  an \<^verbatim>\<open>int64\<close>, so that \<^verbatim>\<open>time.Unix\<close> holds it without wrapping around. Then
  \<^verbatim>\<open>pollHasExpired\<close> holds exactly when the clock is later than the instant of the
  expiry, which is the start of the second \<open>x\<close>: in a later second, or in the second \<open>x\<close>
  itself once a nanosecond of it has gone by. At the instant of the expiry the poll has
  not expired: reconciliation still asks the explorer, and seeding still inserts the
  payment.
\<close>

theorem poll_expired_iff_after_instant:
  "(sint x + 62135596800 < 2 ^ 63 \<longrightarrow>
      (pollHasExpired now x \<longleftrightarrow> sint x < sec now \<or> (sec now = sint x \<and> 0 < nsec now)) \<and>
      Unix x 0 = \<lparr>sec = sint x, nsec = 0\<rparr>)
   \<and> \<not> pollHasExpired (Unix x 0) x
   \<and> (\<forall>invoice w1 w2.
        GetInvoiceByToken e (world s) token = (Inr invoice, w1) \<and>
        Status invoice \<noteq> InvoiceStatusPaid \<and>
        Now e w1 = (Unix (pollExpiry pp) 0, w2)
        \<longrightarrow> list_ex isFetchTx (newCalls s (stepState (checkEntry e token pp toks s))))
   \<and> (\<forall>w1. Now e (world s) = (Unix (PollExpiry ip) 0, w1)
        \<longrightarrow> fst (addPayments e token [ip] pool s) = addInvoiceForPolling token ip pool)"
proof -
  have a: "sint x + 62135596800 < 2 ^ 63 \<longrightarrow>
      (pollHasExpired now x \<longleftrightarrow> sint x < sec now \<or> (sec now = sint x \<and> 0 < nsec now)) \<and>
      Unix x 0 = \<lparr>sec = sint x, nsec = 0\<rparr>"
  proof
    assume fits: "sint x + 62135596800 < 2 ^ 63"
    from unixTime_sec_fits [OF fits, of 0]
    have "Unix x 0 = \<lparr>sec = sint x, nsec = 0\<rparr>"
      by (simp add: Unix_zero unixTime_def)
    with pollHasExpired_fits [OF fits, of now]
    show "(pollHasExpired now x \<longleftrightarrow> sint x < sec now \<or> (sec now = sint x \<and> 0 < nsec now)) \<and>
      Unix x 0 = \<lparr>sec = sint x, nsec = 0\<rparr>"
      by simp
  qed
  have c: "list_ex isFetchTx (newCalls s (stepState (checkEntry e token pp toks s)))"
    if "GetInvoiceByToken e (world s) token = (Inr invoice, w1)"
      "Status invoice \<noteq> InvoiceStatusPaid" "Now e w1 = (Unix (pollExpiry pp) 0, w2)"
    for invoice w1 w2
    using that pollHasExpired_irrefl [of "pollExpiry pp"]
    by (auto simp: checkEntry_def ext_defs newCalls_def stepState_def isFetchTx_def
        split: prod.splits sum.splits option.splits)
  have d: "fst (addPayments e token [ip] pool s) = addInvoiceForPolling token ip pool"
    if "Now e (world s) = (Unix (PollExpiry ip) 0, w1)" for w1
    using that pollHasExpired_irrefl [of "PollExpiry ip"] by (simp add: timeNow_def)
  from a pollHasExpired_irrefl [of x] c d show ?thesis by blast
qed

text \<open>
  The claim as the spec words it does not hold. The expiry is the second 1000 and the
  clock reads one nanosecond into that second: the current second is the second of the
  expiry, and the poll has expired. Reconciliation removes the entry and does not ask the
  explorer. And with the largest \<^verbatim>\<open>int64\<close> as the expiry, the poll has expired at the
  start of the year 2000, long before the expiry: \<^verbatim>\<open>time.Unix\<close> has wrapped around.
\<close>

theorem expired_within_expiry_second_counterexample:
  "sec \<lparr>sec = 1000, nsec = 1\<rparr> = sint (1000 :: int64)
   \<and> pollHasExpired \<lparr>sec = 1000, nsec = 1\<rparr> 1000
   \<and> checkForInvoicePayments memEnv [(''abc'', entryAbc\<lparr>pollExpiry := 1000\<rparr>)]
        (start (memWorld0\<lparr>clock := \<lparr>sec = 1000, nsec = 1\<rparr>\<rparr>))
     = ((True, [''abc'']),
        \<lparr>world = memWorld0\<lparr>clock := \<lparr>sec = 1000, nsec = 1\<rparr>\<rparr>,
         calls = [CallGetInvoiceByToken ''abc'' (Inr invoiceAbc)]\<rparr>)
   \<and> sec \<lparr>sec = 946684800, nsec = 0\<rparr> < sint (9223372036854775807 :: int64)
   \<and> pollHasExpired \<lparr>sec = 946684800, nsec = 0\<rparr> 9223372036854775807"
  by (simp add: run_defs mem_defs time_defs)

text \<open>
  With the clock at the start of the second 1000, the entry that expires at 1000 is
  polled and the payment that expires at 1000 is inserted.
\<close>

theorem poll_expired_iff_after_instant_witness:
  "sint (1000 :: int64) + 62135596800 < 2 ^ 63
   \<and> \<not> pollHasExpired \<lparr>sec = 1000, nsec = 0\<rparr> 1000
   \<and> pollHasExpired \<lparr>sec = 1000, nsec = 1\<rparr> 1000
   \<and> list_ex isFetchTx (newCalls (start memWorld0)
        (stepState (checkEntry memEnv ''abc'' (entryAbc\<lparr>pollExpiry := 1000\<rparr>) []
           (start memWorld0))))
   \<and> fst (addPayments memEnv ''abc'' [paymentLive\<lparr>PollExpiry := 1000\<rparr>] [] (start memWorld0))
     = [(''abc'', entryAbc\<lparr>pollExpiry := 1000\<rparr>)]"
proof -
  let ?pp = "entryAbc\<lparr>pollExpiry := 1000\<rparr>"
  let ?ip = "paymentLive\<lparr>PollExpiry := 1000\<rparr>"
  have fits: "sint (1000 :: int64) + 62135596800 < 2 ^ 63"
    by simp
  have fetch: "GetInvoiceByToken memEnv (world (start memWorld0)) ''abc''
      = (Inr invoiceAbc, memWorld0)"
    by (simp add: mem_defs)
  have unpaid: "Status invoiceAbc \<noteq> InvoiceStatusPaid"
    by (simp add: mem_defs)
  have clock: "Now memEnv memWorld0 = (Unix (pollExpiry ?pp) 0, memWorld0)"
    by (simp add: mem_defs time_defs)
  have clock': "Now memEnv (world (start memWorld0)) = (Unix (PollExpiry ?ip) 0, memWorld0)"
    by (simp add: mem_defs time_defs)
  have ins: "addInvoiceForPolling ''abc'' ?ip [] = [(''abc'', ?pp)]"
    by (simp add: addInvoiceForPolling_def mem_defs)
  have late: "sint (1000 :: int64) < sec \<lparr>sec = 1000, nsec = 1\<rparr> \<or>
      (sec \<lparr>sec = 1000, nsec = 1\<rparr> = sint (1000 :: int64) \<and> 0 < nsec \<lparr>sec = 1000, nsec = 1\<rparr>)"
    by simp
  note th = poll_expired_iff_after_instant
    [of _ _ memEnv "start memWorld0" "''abc''" ?pp "[]" ?ip "[]"]
  from th [of 1000 "\<lparr>sec = 1000, nsec = 1\<rparr>"] fits late
  have a: "pollHasExpired \<lparr>sec = 1000, nsec = 1\<rparr> 1000"
    by blast
  from th [of 1000 "\<lparr>sec = 1000, nsec = 1\<rparr>"] fits
  have unix: "Unix 1000 0 = \<lparr>sec = sint (1000 :: int64), nsec = 0\<rparr>"
    by blast
  from th [of 1000 "\<lparr>sec = 1000, nsec = 1\<rparr>"] unix
  have b: "\<not> pollHasExpired \<lparr>sec = 1000, nsec = 0\<rparr> 1000"
    by simp
  from th [of 1000 "\<lparr>sec = 1000, nsec = 1\<rparr>"] fetch unpaid clock
  have c: "list_ex isFetchTx (newCalls (start memWorld0)
        (stepState (checkEntry memEnv ''abc'' ?pp [] (start memWorld0))))"
    by blast
  from th [of 1000 "\<lparr>sec = 1000, nsec = 1\<rparr>"] clock'
  have d: "fst (addPayments memEnv ''abc'' [?ip] [] (start memWorld0))
      = addInvoiceForPolling ''abc'' ?ip []"
    by blast
  from fits a b c d ins show ?thesis by simp
qed

section \<open>The snapshot of the pool\<close>

text \<open>
  Storing under a key that the list does not have appends the binding, so that the loop of
  \<^verbatim>\<open>createPolledPaymentsCopy\<close> rebuilds a list with distinct keys as it is.
\<close>

lemma update_fresh: "k \<notin> fst ` set al \<Longrightarrow> AList.update k v al = al @ [(k, v)]"
  by (induction al) auto

lemma copy_loop:
  "distinct (map fst (acc @ xs)) \<Longrightarrow>
     foldl (\<lambda>copy (k, v). AList.update k v copy) acc xs = acc @ xs"
proof (induction xs arbitrary: acc)
  case Nil
  show ?case by simp
next
  case (Cons x xs)
  obtain k v where x: "x = (k, v)" by (cases x)
  from Cons.prems x have fresh: "k \<notin> fst ` set acc" by auto
  from Cons.prems x have "distinct (map fst ((acc @ [(k, v)]) @ xs))" by simp
  from Cons.IH [OF this] x fresh show ?case by (simp add: update_fresh)
qed

lemma copy_distinct:
  "distinct (map fst pool) \<Longrightarrow> createPolledPaymentsCopy pool = pool"
  using copy_loop [of "[]" pool] by (simp add: createPolledPaymentsCopy_def)

text \<open>
  Claim C8. For every pool (a map: its keys are distinct), token and payment: the snapshot
  taken right after the insertion binds the token to the entry made from the payment, and
  it is equal to the pool at that moment. This holds for both entry points of the
  insertion, and a snapshot of any pool is equal to the pool.
\<close>

theorem insert_then_snapshot:
  assumes keys: "distinct (map fst pool)"
  shows "map_of (createPolledPaymentsCopy (addInvoiceForPolling token ip pool)) token
           = Some \<lparr>address = Address ip, amount = Amount ip,
                   txNotBefore = TxNotBefore ip, pollExpiry = PollExpiry ip\<rparr>
       \<and> createPolledPaymentsCopy (addInvoiceForPolling token ip pool)
           = addInvoiceForPolling token ip pool
       \<and> createPolledPaymentsCopy (addInvoiceForPollingLock token ip pool)
           = addInvoiceForPollingLock token ip pool
       \<and> createPolledPaymentsCopy pool = pool"
proof -
  have "distinct (map fst (addInvoiceForPolling token ip pool))"
    using keys by (simp add: addInvoiceForPolling_def distinct_update)
  then have "createPolledPaymentsCopy (addInvoiceForPolling token ip pool)
      = addInvoiceForPolling token ip pool"
    by (rule copy_distinct)
  moreover have "map_of (addInvoiceForPolling token ip pool) token
      = Some \<lparr>address = Address ip, amount = Amount ip,
              txNotBefore = TxNotBefore ip, pollExpiry = PollExpiry ip\<rparr>"
    by (simp add: addInvoiceForPolling_def update_conv')
  ultimately show ?thesis
    using copy_distinct [OF keys] by (simp add: addInvoiceForPollingLock_def)
qed

text \<open>
  A pool with the entry \<^verbatim>\<open>abc\<close>, into which \<^verbatim>\<open>xyz\<close> is inserted.
\<close>

theorem insert_then_snapshot_witness:
  "distinct (map fst [(''abc'', entryOld)])
   \<and> map_of (createPolledPaymentsCopy (addInvoiceForPolling ''xyz'' paymentLive
        [(''abc'', entryOld)])) ''xyz''
     = Some \<lparr>address = ''A1'', amount = 500, txNotBefore = 1000, pollExpiry = 9999999999\<rparr>
   \<and> createPolledPaymentsCopy (addInvoiceForPolling ''xyz'' paymentLive [(''abc'', entryOld)])
     = [(''abc'', entryOld),
        (''xyz'', \<lparr>address = ''A1'', amount = 500, txNotBefore = 1000,
                   pollExpiry = 9999999999\<rparr>)]"
proof -
  have keys: "distinct (map fst [(''abc'', entryOld)])"
    by simp
  have ins: "addInvoiceForPolling ''xyz'' paymentLive [(''abc'', entryOld)]
      = [(''abc'', entryOld),
         (''xyz'', \<lparr>address = ''A1'', amount = 500, txNotBefore = 1000,
                    pollExpiry = 9999999999\<rparr>)]"
    by (simp add: addInvoiceForPolling_def paymentLive_def)
  have fields: "Address paymentLive = ''A1''" "Amount paymentLive = 500"
      "TxNotBefore paymentLive = 1000" "PollExpiry paymentLive = 9999999999"
    by (simp_all add: paymentLive_def)
  from insert_then_snapshot [OF keys, of "''xyz''" paymentLive] keys ins fields
  show ?thesis by simp
qed

section \<open>The pool after seeding\<close>

text \<open>
  The two loops of \<^verbatim>\<open>addInvoicesForPolling\<close> read the clock once for each row and
  insert the rows that have not expired at their reading.
\<close>

lemma clockReadings_add:
  "clockReadings e (m + n) w = clockReadings e m w @ clockReadings e n (clockWorld e m w)"
  by (induction m arbitrary: w) (auto split: prod.splits)

lemma clockWorld_add: "clockWorld e (m + n) w = clockWorld e n (clockWorld e m w)"
  by (induction m arbitrary: w) (auto split: prod.splits)

lemma length_clockReadings [simp]: "length (clockReadings e n w) = n"
  by (induction n arbitrary: w) (auto split: prod.splits)

lemma insertRows_append: "insertRows (xs @ ys) p = insertRows ys (insertRows xs p)"
  by (simp add: insertRows_def)

lemma unexpiredRows_append: "unexpiredRows (xs @ ys) = unexpiredRows xs @ unexpiredRows ys"
  by (simp add: unexpiredRows_def)

lemma addPayments_rows:
  "addPayments e token ips pool s =
     (insertRows (unexpiredRows (zip (map (Pair token) ips)
        (clockReadings e (length ips) (world s)))) pool,
      \<lparr>world = clockWorld e (length ips) (world s), calls = calls s\<rparr>)"
proof (induction ips arbitrary: pool s)
  case Nil
  show ?case by (simp add: insertRows_def unexpiredRows_def)
next
  case (Cons ip ips)
  show ?case
    by (auto simp: Cons.IH timeNow_def insertRows_def unexpiredRows_def split: prod.splits)
qed

lemma addInvoices_rows:
  "addInvoices e invoices pool s =
     (insertRows (unexpiredRows (zip (invoiceRows invoices)
        (clockReadings e (length (invoiceRows invoices)) (world s)))) pool,
      \<lparr>world = clockWorld e (length (invoiceRows invoices)) (world s), calls = calls s\<rparr>)"
proof (induction invoices arbitrary: pool s)
  case Nil
  show ?case by (simp add: insertRows_def unexpiredRows_def invoiceRows_def)
next
  case (Cons invoice invoices)
  have rows: "invoiceRows (invoice # invoices)
      = map (Pair (Token invoice)) (Payments invoice) @ invoiceRows invoices"
    by (simp add: invoiceRows_def)
  show ?case
    by (simp add: rows addPayments_rows Cons.IH clockReadings_add clockWorld_add
        insertRows_append unexpiredRows_append)
qed

text \<open>
  Claim C7, as the code has it. When the store returns the invoices, seeding returns no
  error, and the pool it leaves is the pool it started from with these rows inserted under
  the token of their invoice, in the order of the rows: every payment of every invoice for
  which \<^verbatim>\<open>pollHasExpired\<close> is false at the reading of the clock taken for it, and no
  other. When every reading is the time \<open>t\<close>, these are the rows that have not expired
  at \<open>t\<close>. For a poll expiry \<open>x\<close> for which \<open>x + 62135596800\<close> fits an
  \<^verbatim>\<open>int64\<close>, the test is false exactly when the reading is not later than the start
  of the second \<open>x\<close>.
\<close>

theorem seeding_inserts_unexpired_rows:
  assumes rows: "GetInvoices e (world s) = (Inr invoices, w1)"
  shows "addInvoicesForPolling e pool s =
           (None,
            insertRows (unexpiredRows (zip (invoiceRows invoices)
              (clockReadings e (length (invoiceRows invoices)) w1))) pool,
            \<lparr>world = clockWorld e (length (invoiceRows invoices)) w1,
             calls = calls s @ [CallGetInvoices (Inr invoices)]\<rparr>)
       \<and> (set (clockReadings e (length (invoiceRows invoices)) w1) \<subseteq> {t} \<longrightarrow>
            fst (snd (addInvoicesForPolling e pool s)) =
              insertRows (filter (\<lambda>(token, ip). \<not> pollHasExpired t (PollExpiry ip))
                (invoiceRows invoices)) pool)
       \<and> (\<forall>now x. sint x + 62135596800 < 2 ^ 63 \<longrightarrow>
            (\<not> pollHasExpired now x \<longleftrightarrow>
               sec now < sint x \<or> (sec now = sint x \<and> nsec now \<le> 0)))"
proof -
  have natural: "\<not> pollHasExpired now x \<longleftrightarrow>
      sec now < sint x \<or> (sec now = sint x \<and> nsec now \<le> 0)"
    if "sint x + 62135596800 < 2 ^ 63" for now x
    using pollHasExpired_fits [OF that, of now] by auto
  let ?rows = "invoiceRows invoices"
  let ?times = "clockReadings e (length ?rows) w1"
  have run: "addInvoicesForPolling e pool s =
           (None, insertRows (unexpiredRows (zip ?rows ?times)) pool,
            \<lparr>world = clockWorld e (length ?rows) w1,
             calls = calls s @ [CallGetInvoices (Inr invoices)]\<rparr>)"
    using rows by (simp add: addInvoicesForPolling_def dbGetInvoices_def addInvoices_rows)
  have "unexpiredRows (zip rs ts)
      = filter (\<lambda>(token, ip). \<not> pollHasExpired t (PollExpiry ip)) rs"
    if "set ts \<subseteq> {t}" "length ts = length rs" for rs :: "(string \<times> InvoicePayment) list" and ts
    using that
  proof (induction rs arbitrary: ts)
    case Nil
    then show ?case by (simp add: unexpiredRows_def)
  next
    case (Cons r rs)
    then obtain t' ts' where ts: "ts = t' # ts'" by (cases ts) auto
    with Cons.prems have "t' = t" "set ts' \<subseteq> {t}" "length ts' = length rs" by auto
    with Cons.IH [of ts'] ts show ?case
      by (auto simp: unexpiredRows_def split: prod.splits)
  qed
  from this [of ?times ?rows] run natural show ?thesis by simp
qed

text \<open>
  The claim as the spec words it does not hold. The table has one invoice with one
  payment, whose poll expiry is the largest \<^verbatim>\<open>int64\<close>, and the clock reads the second
  1000: the expiry is not in the past, and the payment is not inserted.
\<close>

theorem far_expiry_not_seeded_counterexample:
  "sec (clock memWorldFar) < sint (PollExpiry paymentFar)
   \<and> addInvoicesForPolling memEnv [] (start memWorldFar)
     = (None, [],
        \<lparr>world = memWorldFar, calls = [CallGetInvoices (Inr [invoiceFar])]\<rparr>)"
  by (simp add: addInvoicesForPolling_def dbGetInvoices_def timeNow_def mem_defs time_defs)

text \<open>
  The table has one invoice with two payments. The payment that expired at second 999 is
  passed over, the other is inserted under the token of the invoice.
\<close>

theorem seeding_inserts_unexpired_rows_witness:
  "addInvoicesForPolling memEnv [] (start memWorldSeed)
     = (None, [(''abc'', entryAbc)],
        \<lparr>world = memWorldSeed, calls = [CallGetInvoices (Inr [invoiceSeed])]\<rparr>)
   \<and> set (clockReadings memEnv (length (invoiceRows [invoiceSeed])) memWorldSeed)
       \<subseteq> {\<lparr>sec = 1000, nsec = 0\<rparr>}
   \<and> filter (\<lambda>(token, ip). \<not> pollHasExpired \<lparr>sec = 1000, nsec = 0\<rparr> (PollExpiry ip))
        (invoiceRows [invoiceSeed]) = [(''abc'', paymentLive)]
   \<and> sint (PollExpiry paymentLive) + 62135596800 < 2 ^ 63
   \<and> sec \<lparr>sec = 1000, nsec = 0\<rparr> < sint (PollExpiry paymentLive)
   \<and> \<not> pollHasExpired \<lparr>sec = 1000, nsec = 0\<rparr> (PollExpiry paymentLive)"
proof -
  have fits: "sint (PollExpiry paymentLive) + 62135596800 < 2 ^ 63"
    by (simp add: paymentLive_def)
  have before: "sec \<lparr>sec = 1000, nsec = 0\<rparr> < sint (PollExpiry paymentLive)"
    by (simp add: paymentLive_def)
  have rows: "GetInvoices memEnv (world (start memWorldSeed)) = (Inr [invoiceSeed], memWorldSeed)"
    by (simp add: mem_defs)
  have irows: "invoiceRows [invoiceSeed] = [(''abc'', paymentOld), (''abc'', paymentLive)]"
    by (simp add: invoiceRows_def invoiceSeed_def)
  have now: "Now memEnv memWorldSeed = (\<lparr>sec = 1000, nsec = 0\<rparr>, memWorldSeed)"
    by (simp add: mem_defs)
  have times: "clockReadings memEnv (length (invoiceRows [invoiceSeed])) memWorldSeed
      = [\<lparr>sec = 1000, nsec = 0\<rparr>, \<lparr>sec = 1000, nsec = 0\<rparr>]"
    by (simp add: irows now)
  have wafter: "clockWorld memEnv (length (invoiceRows [invoiceSeed])) memWorldSeed
      = memWorldSeed"
    by (simp add: irows now)
  have old: "pollHasExpired \<lparr>sec = 1000, nsec = 0\<rparr> (PollExpiry paymentOld)"
    by (simp add: paymentOld_def time_defs)
  have live: "\<not> pollHasExpired \<lparr>sec = 1000, nsec = 0\<rparr> (PollExpiry paymentLive)"
    by (simp add: paymentLive_def time_defs)
  have ins: "insertRows [(''abc'', paymentLive)] [] = [(''abc'', entryAbc)]"
    by (simp add: insertRows_def addInvoiceForPolling_def paymentLive_def entryAbc_def)
  have kept: "unexpiredRows (zip (invoiceRows [invoiceSeed])
      [\<lparr>sec = 1000, nsec = 0\<rparr>, \<lparr>sec = 1000, nsec = 0\<rparr>]) = [(''abc'', paymentLive)]"
    by (simp add: irows old live unexpiredRows_def)
  have flt: "filter (\<lambda>(token, ip). \<not> pollHasExpired \<lparr>sec = 1000, nsec = 0\<rparr> (PollExpiry ip))
        (invoiceRows [invoiceSeed]) = [(''abc'', paymentLive)]"
    by (simp add: irows old live)
  note th = seeding_inserts_unexpired_rows [OF rows, of "[]" "\<lparr>sec = 1000, nsec = 0\<rparr>"]
  from th fits before
  have live': "\<not> pollHasExpired \<lparr>sec = 1000, nsec = 0\<rparr> (PollExpiry paymentLive)"
    by blast
  from th have "addInvoicesForPolling memEnv [] (start memWorldSeed)
     = (None, [(''abc'', entryAbc)],
        \<lparr>world = memWorldSeed, calls = [CallGetInvoices (Inr [invoiceSeed])]\<rparr>)"
    unfolding times wafter kept ins by (simp add: start_def)
  moreover have "set (clockReadings memEnv (length (invoiceRows [invoiceSeed])) memWorldSeed)
       \<subseteq> {\<lparr>sec = 1000, nsec = 0\<rparr>}"
    unfolding times by simp
  ultimately show ?thesis using flt fits before live' by simp
qed

end
